theory Spec2Isabelle
  imports Complex_Main "HOL-Library.FSet" "HOL-Library.Char_ord" "HOL-Library.List_Lexorder"
    "HOL-Library.Product_Lexorder"
begin

section \<open>Clock strings and per-segment travel times (trip planner, build_indices)\<close>

text \<open>
  The planner loads every column as text, so an arrival or departure cell is a string, or
  missing (pandas NaN), which is \<open>None\<close> here. \<open>time_to_minutes\<close> of the source is
  \<^verbatim>\<open>parts = t.split(':'); return int(parts[0]) * 60 + int(parts[1])\<close> inside a bare
  \<^verbatim>\<open>try/except\<close> that turns every exception into \<^verbatim>\<open>None\<close>.
\<close>

text \<open>Python's \<^verbatim>\<open>str.split(':')\<close>: the fields between the colons, never an empty list.\<close>

fun split_colon :: "string \<Rightarrow> string list" where
  "split_colon [] = [[]]"
| "split_colon (c # cs) =
     (if c = CHR '':'' then [] # split_colon cs
      else (case split_colon cs of
              [] \<Rightarrow> [[c]]
            | p # ps \<Rightarrow> (c # p) # ps))"

text \<open>
  Python's \<^verbatim>\<open>int(s)\<close> on a string: surrounding whitespace is stripped, one optional sign,
  then decimal digits, where single underscores may separate digits. Anything else raises
  ValueError, which is \<open>None\<close> here. Characters are bytes, so only the ASCII digits and the
  ASCII whitespace characters (tab, line feed, vertical tab, form feed, carriage return,
  space) are recognised.
\<close>

definition is_space :: "char \<Rightarrow> bool" where
  "is_space c \<longleftrightarrow> of_char c \<in> {9, 10, 11, 12, 13, 32 :: nat}"

definition is_digit :: "char \<Rightarrow> bool" where
  "is_digit c \<longleftrightarrow> 48 \<le> (of_char c :: nat) \<and> (of_char c :: nat) \<le> 57"

definition digit_val :: "char \<Rightarrow> int" where
  "digit_val c = int (of_char c) - 48"

definition strip :: "string \<Rightarrow> string" where
  "strip s = rev (dropWhile is_space (rev (dropWhile is_space s)))"

fun digits_acc :: "int \<Rightarrow> string \<Rightarrow> int option" where
  "digits_acc acc [] = Some acc"
| "digits_acc acc (c # cs) =
     (if is_digit c then digits_acc (10 * acc + digit_val c) cs
      else if c = CHR ''_'' then
        (case cs of
           [] \<Rightarrow> None
         | d # ds \<Rightarrow> if is_digit d then digits_acc (10 * acc + digit_val d) ds else None)
      else None)"

definition py_unsigned :: "string \<Rightarrow> int option" where
  "py_unsigned u =
     (case u of
        [] \<Rightarrow> None
      | d # ds \<Rightarrow> if is_digit d then digits_acc (digit_val d) ds else None)"

definition py_int :: "string \<Rightarrow> int option" where
  "py_int s =
     (case strip s of
        [] \<Rightarrow> None
      | c # r \<Rightarrow>
          if c = CHR ''-'' then map_option uminus (py_unsigned r)
          else if c = CHR ''+'' then py_unsigned r
          else py_unsigned (c # r))"

definition time_to_minutes :: "string option \<Rightarrow> int option" where
  "time_to_minutes t =
     (case t of
        None \<Rightarrow> None
      | Some s \<Rightarrow>
          (case split_colon s of
             p0 # p1 # rest \<Rightarrow>
               (case py_int p0 of
                  None \<Rightarrow> None
                | Some h \<Rightarrow>
                    (case py_int p1 of
                       None \<Rightarrow> None
                     | Some m \<Rightarrow> Some (h * 60 + m)))
           | _ \<Rightarrow> None))"

text \<open>One entry of \<^verbatim>\<open>route_stop_times[rid]\<close>: the stop, its arrival and departure cells,
  and the sequence number.\<close>

record stop_time_entry =
  e_stop :: string
  e_arr :: "string option"
  e_dep :: "string option"
  e_seq :: int

text \<open>The body of the loop over \<^verbatim>\<open>range(len(times) - 1)\<close>: the value appended for the
  segment from an entry to the next one.\<close>

definition segment_duration :: "string option \<Rightarrow> string option \<Rightarrow> int" where
  "segment_duration dep arr =
     (case (time_to_minutes dep, time_to_minutes arr) of
        (Some t1, Some t2) \<Rightarrow>
          (let diff = t2 - t1;
               diff = (if diff < 0 then 3 else diff)
           in max 1 (min diff 30))
      | _ \<Rightarrow> 3)"

fun travel_times :: "stop_time_entry list \<Rightarrow> int list" where
  "travel_times (a # b # rest) = segment_duration (e_dep a) (e_arr b) # travel_times (b # rest)"
| "travel_times _ = []"

definition clamp_example :: "stop_time_entry list" where
  "clamp_example =
     [\<lparr>e_stop = ''S1'', e_arr = Some ''08:00:00'', e_dep = Some ''08:10:00'', e_seq = 1\<rparr>,
      \<lparr>e_stop = ''S2'', e_arr = Some ''08:05:00'', e_dep = Some ''08:06:00'', e_seq = 2\<rparr>,
      \<lparr>e_stop = ''S3'', e_arr = None, e_dep = Some ''xx'', e_seq = 3\<rparr>,
      \<lparr>e_stop = ''S4'', e_arr = Some ''09:30:00'', e_dep = Some ''09:30:00'', e_seq = 4\<rparr>]"

section \<open>Stop-set overlap (utils/geo.py) and the merge threshold (config.py)\<close>

text \<open>
  A Python set of stop ids is a finite set. The source returns the float
  \<^verbatim>\<open>intersection / union\<close>; the model keeps the exact quotient. Python's integer
  division is correctly rounded and the literal \<^verbatim>\<open>0.3\<close> is the double nearest to 3/10, so for
  sets of fewer than \<open>10\<^sup>1\<^sup>5\<close> stops the float test \<^verbatim>\<open>jaccard > MERGE_THRESHOLD\<close> and the exact
  one agree.
\<close>

definition MERGE_THRESHOLD :: rat where
  "MERGE_THRESHOLD = 3 / 10"

definition calculate_route_overlap :: "string fset \<Rightarrow> string fset \<Rightarrow> rat" where
  "calculate_route_overlap stops1 stops2 =
     (if stops1 = {||} \<or> stops2 = {||} then 0
      else
        (let intersection = fcard (stops1 |\<inter>| stops2);
             union = fcard (stops1 |\<union>| stops2)
         in if union > 0 then of_nat intersection / of_nat union else 0))"

section \<open>Feed tables\<close>

text \<open>
  The rows of the four feed tables. Identifiers are text. A missing cell (pandas NaN) is
  \<open>None\<close>; the stops table is taken after \<^verbatim>\<open>pd.to_numeric(..., errors='coerce')\<close>, so a
  coordinate that does not parse is \<open>None\<close> too. Coordinates are only carried, never
  computed with, so \<open>real\<close> stands for the float. The sequence column is numeric
  (the loader reads it with dtype int).
\<close>

record stop_row =
  sp_stop_id :: string
  sp_stop_name :: "string option"
  sp_stop_lat :: "real option"
  sp_stop_lon :: "real option"

record stop_time_row =
  st_trip_id :: string
  st_stop_id :: string
  st_stop_sequence :: int
  st_arrival_time :: "string option"
  st_departure_time :: "string option"

record trip_row =
  tr_trip_id :: string
  tr_route_id :: string
  tr_direction_id :: "string option"

text \<open>A route-name cell as \<^verbatim>\<open>row.get(...)\<close> sees it: the column is absent (\<^verbatim>\<open>None\<close>), the
  cell is empty (NaN, which Python counts as true), or it holds text.\<close>

datatype cell = Absent | NaN | Text string

record route_row =
  rt_route_id :: string
  rt_short_name :: cell
  rt_long_name :: cell

section \<open>Dictionaries and table operations\<close>

text \<open>A Python dict keeps its keys in insertion order; assigning to a key that is present
  replaces the value in place.\<close>

fun dict_set :: "'k \<Rightarrow> 'v \<Rightarrow> ('k \<times> 'v) list \<Rightarrow> ('k \<times> 'v) list" where
  "dict_set k v [] = [(k, v)]"
| "dict_set k v (p # ps) = (if fst p = k then (k, v) # ps else p # dict_set k v ps)"

text \<open>\<^verbatim>\<open>DataFrame.drop_duplicates(keys)\<close> keeps the first row of every key, in order.\<close>

fun drop_duplicates_from :: "'k list \<Rightarrow> ('a \<Rightarrow> 'k) \<Rightarrow> 'a list \<Rightarrow> 'a list" where
  "drop_duplicates_from seen key [] = []"
| "drop_duplicates_from seen key (x # xs) =
     (if key x \<in> set seen then drop_duplicates_from seen key xs
      else x # drop_duplicates_from (key x # seen) key xs)"

definition drop_duplicates :: "('a \<Rightarrow> 'k) \<Rightarrow> 'a list \<Rightarrow> 'a list" where
  "drop_duplicates key xs = drop_duplicates_from [] key xs"

text \<open>
  \<^verbatim>\<open>sort_values('stop_count', ascending=False)\<close>, as the stable descending sort: rows with
  equal counts keep their table order. The library's default algorithm does not promise an
  order among equal counts; the stable order is the one the design describes.
\<close>

definition sort_values_desc :: "('a \<Rightarrow> nat) \<Rightarrow> 'a list \<Rightarrow> 'a list" where
  "sort_values_desc key xs = sort_key (\<lambda>r. - int (key r)) xs"

section \<open>Representative trips (GTFSLoader.get_representative_trips)\<close>

text \<open>
  \<^verbatim>\<open>stop_times.groupby('trip_id').size()\<close> lists every trip id of the stop-times table once,
  in ascending order, with its number of rows. \<^verbatim>\<open>trips.merge(trip_counts, on='trip_id')\<close> is
  an inner join in the order of the trips table, so a trip without stop times is dropped;
  a missing direction is filled with \<^verbatim>\<open>'0'\<close>. NetworkMapGenerator._build_features repeats
  the same statements inline.
\<close>

definition visit_count :: "stop_time_row list \<Rightarrow> string \<Rightarrow> nat" where
  "visit_count stop_times tid = length (filter (\<lambda>r. st_trip_id r = tid) stop_times)"

definition trip_counts :: "stop_time_row list \<Rightarrow> (string \<times> nat) list" where
  "trip_counts stop_times =
     map (\<lambda>tid. (tid, visit_count stop_times tid)) (sort (remdups (map st_trip_id stop_times)))"

record rep_row =
  rp_trip_id :: string
  rp_route_id :: string
  rp_direction_id :: string
  rp_stop_count :: nat

definition fill_direction :: "string option \<Rightarrow> string" where
  "fill_direction d = (case d of None \<Rightarrow> ''0'' | Some v \<Rightarrow> v)"

definition trips_enriched :: "trip_row list \<Rightarrow> stop_time_row list \<Rightarrow> rep_row list" where
  "trips_enriched trips stop_times =
     List.map_filter
       (\<lambda>t. case map_of (trip_counts stop_times) (tr_trip_id t) of
               None \<Rightarrow> None
             | Some c \<Rightarrow>
                 Some \<lparr>rp_trip_id = tr_trip_id t, rp_route_id = tr_route_id t,
                       rp_direction_id = fill_direction (tr_direction_id t),
                       rp_stop_count = c\<rparr>)
       trips"

definition get_representative_trips :: "trip_row list \<Rightarrow> stop_time_row list \<Rightarrow> rep_row list" where
  "get_representative_trips trips stop_times =
     drop_duplicates (\<lambda>r. (rp_route_id r, rp_direction_id r))
       (sort_values_desc rp_stop_count (trips_enriched trips stop_times))"

text \<open>A small feed: five trips of one route.\<close>

definition ex_trips :: "trip_row list" where
  "ex_trips = [\<lparr>tr_trip_id = ''T2'', tr_route_id = ''R'', tr_direction_id = None\<rparr>,
     \<lparr>tr_trip_id = ''T1'', tr_route_id = ''R'', tr_direction_id = Some ''0''\<rparr>,
     \<lparr>tr_trip_id = ''T3'', tr_route_id = ''R'', tr_direction_id = Some ''1''\<rparr>,
     \<lparr>tr_trip_id = ''T4'', tr_route_id = ''R'', tr_direction_id = Some ''1''\<rparr>,
     \<lparr>tr_trip_id = ''T5'', tr_route_id = ''R'', tr_direction_id = Some ''1''\<rparr>]"

definition mk_st :: "string \<Rightarrow> string \<Rightarrow> int \<Rightarrow> stop_time_row" where
  "mk_st t s q =
     \<lparr>st_trip_id = t, st_stop_id = s, st_stop_sequence = q,
      st_arrival_time = None, st_departure_time = None\<rparr>"

definition ex_st :: "stop_time_row list" where
  "ex_st = [mk_st ''T1'' ''A'' 1, mk_st ''T2'' ''B'' 1, mk_st ''T4'' ''B'' 1,
            mk_st ''T4'' ''C'' 2, mk_st ''T3'' ''B'' 1]"

section \<open>Route geometries (InteractiveMapGenerator._build_route_geometries)\<close>

text \<open>
  A row of \<^verbatim>\<open>st_geo\<close>: a stop time of a representative trip, left-joined with the stops
  table on the stop id. A stop id that the stops table does not have gives one row with
  NaN name and coordinates; a stop id that occurs several times there gives one row each.
\<close>

record geo_row =
  g_trip_id :: string
  g_stop_id :: string
  g_stop_sequence :: int
  g_stop_name :: "string option"
  g_stop_lat :: "real option"
  g_stop_lon :: "real option"

definition join_stop :: "stop_time_row \<Rightarrow> string option \<Rightarrow> real option \<Rightarrow> real option \<Rightarrow> geo_row" where
  "join_stop r name lat lon =
     \<lparr>g_trip_id = st_trip_id r, g_stop_id = st_stop_id r,
      g_stop_sequence = st_stop_sequence r,
      g_stop_name = name, g_stop_lat = lat, g_stop_lon = lon\<rparr>"

definition merge_stops :: "stop_time_row list \<Rightarrow> stop_row list \<Rightarrow> geo_row list" where
  "merge_stops st_filtered stops =
     concat (map (\<lambda>r.
       (case filter (\<lambda>s. sp_stop_id s = st_stop_id r) stops of
          [] \<Rightarrow> [join_stop r None None None]
        | ms \<Rightarrow> map (\<lambda>s. join_stop r (sp_stop_name s) (sp_stop_lat s) (sp_stop_lon s)) ms))
       st_filtered)"

definition st_geo :: "rep_row list \<Rightarrow> stop_time_row list \<Rightarrow> stop_row list \<Rightarrow> geo_row list" where
  "st_geo rep_trips stop_times stops =
     merge_stops (filter (\<lambda>r. st_trip_id r \<in> rp_trip_id ` set rep_trips) stop_times) stops"

text \<open>\<^verbatim>\<open>st_geo[st_geo['trip_id'] == trip_id].sort_values('stop_sequence')\<close>, as the stable
  ascending sort.\<close>

definition trip_stops :: "geo_row list \<Rightarrow> string \<Rightarrow> geo_row list" where
  "trip_stops geo trip_id = sort_key g_stop_sequence (filter (\<lambda>g. g_trip_id g = trip_id) geo)"

record stop_detail =
  sd_name :: "string option"
  sd_lat :: real
  sd_lon :: real

record geometry =
  geo_coords :: "(real \<times> real) list"
  geo_stop_ids :: "string fset"
  geo_stop_list :: "stop_detail list"
  geo_start :: "string option"
  geo_end :: "string option"
  geo_count :: nat

text \<open>\<^verbatim>\<open>trip_stops[['stop_lon', 'stop_lat']].dropna().values.tolist()\<close>: longitude first, rows
  with a missing coordinate dropped.\<close>

definition coords_of :: "geo_row list \<Rightarrow> (real \<times> real) list" where
  "coords_of rows =
     List.map_filter (\<lambda>r. case (g_stop_lon r, g_stop_lat r) of
                             (Some lon, Some lat) \<Rightarrow> Some (lon, lat)
                           | _ \<Rightarrow> None) rows"

definition stop_list_of :: "geo_row list \<Rightarrow> stop_detail list" where
  "stop_list_of rows =
     List.map_filter (\<lambda>r. case (g_stop_lat r, g_stop_lon r) of
                             (Some lat, Some lon) \<Rightarrow>
                               Some \<lparr>sd_name = g_stop_name r, sd_lat = lat, sd_lon = lon\<rparr>
                           | _ \<Rightarrow> None) rows"

text \<open>The body of the loop over the representative trips: \<open>None\<close> is the
  \<^verbatim>\<open>continue\<close> taken when the trip has no row at all.\<close>

definition trip_geometry :: "geo_row list \<Rightarrow> geometry option" where
  "trip_geometry rows =
     (case rows of
        [] \<Rightarrow> None
      | r # rs \<Rightarrow>
          Some \<lparr>geo_coords = coords_of rows,
                geo_stop_ids = fset_of_list (map g_stop_id rows),
                geo_stop_list = stop_list_of rows,
                geo_start = g_stop_name r,
                geo_end = g_stop_name (last rows),
                geo_count = length (coords_of rows)\<rparr>)"

definition build_route_geometries ::
  "rep_row list \<Rightarrow> stop_time_row list \<Rightarrow> stop_row list \<Rightarrow> ((string \<times> string) \<times> geometry) list" where
  "build_route_geometries rep_trips stop_times stops =
     foldl (\<lambda>geometries row.
              (case trip_geometry (trip_stops (st_geo rep_trips stop_times stops) (rp_trip_id row)) of
                 None \<Rightarrow> geometries
               | Some g \<Rightarrow> dict_set (rp_route_id row, rp_direction_id row) g geometries))
       [] rep_trips"

section \<open>Features with smart merging (InteractiveMapGenerator._create_geojson_features)\<close>

definition get_default :: "('k \<times> 'v) list \<Rightarrow> 'k \<Rightarrow> 'v \<Rightarrow> 'v" where
  "get_default d k v = (case map_of d k of None \<Rightarrow> v | Some w \<Rightarrow> w)"

text \<open>Grouping by route id: a dict of dicts, both in insertion order.\<close>

definition group_directions ::
  "((string \<times> string) \<times> 'g) list \<Rightarrow> (string \<times> (string \<times> 'g) list) list" where
  "group_directions geometries =
     foldl (\<lambda>route_directions ((route_id, dir_id), data).
              dict_set route_id (dict_set dir_id data (get_default route_directions route_id []))
                route_directions)
       [] geometries"

fun truthy :: "cell \<Rightarrow> bool" where
  "truthy Absent = False"
| "truthy NaN = True"
| "truthy (Text s) = (s \<noteq> [])"

fun py_str :: "cell \<Rightarrow> string" where
  "py_str Absent = ''None''"
| "py_str NaN = ''nan''"
| "py_str (Text s) = s"

definition display_name :: "route_row \<Rightarrow> string" where
  "display_name row =
     (if truthy (rt_short_name row) then py_str (rt_short_name row)
      else if truthy (rt_long_name row) then py_str (rt_long_name row)
      else rt_route_id row)"

definition route_names :: "route_row list \<Rightarrow> (string \<times> string) list" where
  "route_names routes =
     foldl (\<lambda>names row. dict_set (rt_route_id row) (display_name row) names) [] routes"

text \<open>A stop name inside an f-string: a missing name prints as \<^verbatim>\<open>nan\<close>.\<close>

definition name_str :: "string option \<Rightarrow> string" where
  "name_str n = (case n of None \<Rightarrow> ''nan'' | Some s \<Rightarrow> s)"

text \<open>The two arrows of the description strings, as their UTF-8 bytes.\<close>

definition arrow_both :: string where
  "arrow_both = [CHR 0xE2, CHR 0x86, CHR 0x94]"

definition arrow_right :: string where
  "arrow_right = [CHR 0xE2, CHR 0x86, CHR 0x92]"

record feature =
  f_id :: string
  f_route_name :: string
  f_search_text :: string
  f_desc :: string
  f_stops_count :: nat
  f_stop_list :: "stop_detail list"
  f_type :: string
  f_coordinates :: "(real \<times> real) list"

text \<open>
  The merge test. \<open>Some d\<close> is the direction whose geometry stands for the merged route
  (\<^verbatim>\<open>merged = True\<close>); \<open>None\<close> leaves \<^verbatim>\<open>merged\<close> false.
\<close>

definition merge_choice :: "(string \<times> geometry) list \<Rightarrow> geometry option" where
  "merge_choice directions =
     (case (map_of directions ''0'', map_of directions ''1'') of
        (Some d0, Some d1) \<Rightarrow>
          (let jaccard = calculate_route_overlap (geo_stop_ids d0) (geo_stop_ids d1)
           in if jaccard > MERGE_THRESHOLD
              then Some (if geo_count d0 \<ge> geo_count d1 then d0 else d1)
              else None)
      | _ \<Rightarrow> None)"

definition bidirectional_feature :: "string \<Rightarrow> string \<Rightarrow> geometry \<Rightarrow> feature" where
  "bidirectional_feature route_id route_name d =
     \<lparr>f_id = route_id @ ''_bidir'',
      f_route_name = route_name,
      f_search_text = route_name @ '' (Bidirectional)'',
      f_desc = name_str (geo_start d) @ '' '' @ arrow_both @ '' '' @ name_str (geo_end d),
      f_stops_count = geo_count d,
      f_stop_list = geo_stop_list d,
      f_type = ''bidirectional'',
      f_coordinates = geo_coords d\<rparr>"

definition one_way_feature :: "string \<Rightarrow> string \<Rightarrow> string \<Rightarrow> geometry \<Rightarrow> feature" where
  "one_way_feature route_id route_name dir_id d =
     (let suffix = (if dir_id = ''0'' then ''Outbound'' else ''Inbound'')
      in \<lparr>f_id = route_id @ ''_'' @ dir_id,
          f_route_name = route_name,
          f_search_text = route_name @ '' ('' @ suffix @ '')'',
          f_desc = name_str (geo_start d) @ '' '' @ arrow_right @ '' '' @ name_str (geo_end d),
          f_stops_count = geo_count d,
          f_stop_list = geo_stop_list d,
          f_type = ''one_way'',
          f_coordinates = geo_coords d\<rparr>)"

text \<open>The body of the loop over the routes: the features appended for one route.\<close>

definition route_features :: "string \<Rightarrow> string \<Rightarrow> (string \<times> geometry) list \<Rightarrow> feature list" where
  "route_features route_id route_name directions =
     (case merge_choice directions of
        Some d \<Rightarrow> [bidirectional_feature route_id route_name d]
      | None \<Rightarrow> map (\<lambda>(dir_id, d). one_way_feature route_id route_name dir_id d) directions)"

text \<open>Python's \<^verbatim>\<open>list.sort(key=...)\<close> is stable and compares strings by code point.\<close>

definition create_geojson_features ::
  "((string \<times> string) \<times> geometry) list \<Rightarrow> route_row list \<Rightarrow> feature list" where
  "create_geojson_features geometries routes =
     sort_key f_search_text
       (concat (map (\<lambda>(route_id, directions).
                       route_features route_id
                         (get_default (route_names routes) route_id route_id) directions)
                  (group_directions geometries)))"

definition interactive_features ::
  "stop_row list \<Rightarrow> stop_time_row list \<Rightarrow> trip_row list \<Rightarrow> route_row list \<Rightarrow> feature list" where
  "interactive_features stops stop_times trips routes =
     create_geojson_features
       (build_route_geometries (get_representative_trips trips stop_times) stop_times stops)
       routes"

section \<open>Network map features (NetworkMapGenerator._build_features)\<close>

text \<open>
  The network map selects its representative trips with the statements of
  \<open>get_representative_trips\<close>, builds the same joined rows, and keeps a geometry without
  the stop details directly in the dict of dicts. Its features are returned as appended.
\<close>

record net_geometry =
  ng_coords :: "(real \<times> real) list"
  ng_stop_ids :: "string fset"
  ng_start :: "string option"
  ng_end :: "string option"
  ng_count :: nat

definition net_trip_geometry :: "geo_row list \<Rightarrow> net_geometry option" where
  "net_trip_geometry rows =
     (case rows of
        [] \<Rightarrow> None
      | r # rs \<Rightarrow>
          Some \<lparr>ng_coords = coords_of rows,
                ng_stop_ids = fset_of_list (map g_stop_id rows),
                ng_start = g_stop_name r,
                ng_end = g_stop_name (last rows),
                ng_count = length (coords_of rows)\<rparr>)"

definition net_route_directions ::
  "rep_row list \<Rightarrow> stop_time_row list \<Rightarrow> stop_row list \<Rightarrow> (string \<times> (string \<times> net_geometry) list) list" where
  "net_route_directions rep_trips stop_times stops =
     foldl (\<lambda>route_directions row.
              (case net_trip_geometry
                      (trip_stops (st_geo rep_trips stop_times stops) (rp_trip_id row)) of
                 None \<Rightarrow> route_directions
               | Some g \<Rightarrow>
                   dict_set (rp_route_id row)
                     (dict_set (rp_direction_id row) g
                        (get_default route_directions (rp_route_id row) []))
                     route_directions))
       [] rep_trips"

record net_feature =
  nf_route_name :: string
  nf_search_key :: string
  nf_details :: string
  nf_stops :: nat
  nf_color :: string
  nf_coordinates :: "(real \<times> real) list"

text \<open>The separators of the network map's detail strings, as the bytes of the source file.\<close>

definition net_arrow_both :: string where
  "net_arrow_both = [CHR 0xE2, CHR 0x80, CHR 0x9A, CHR 0xC3, CHR 0x9C, CHR 0xC3, CHR 0xAE]"

definition net_arrow_right :: string where
  "net_arrow_right = [CHR 0xE2, CHR 0x80, CHR 0x9A, CHR 0xC3, CHR 0x9C, CHR 0xC3, CHR 0xAD]"

definition net_merge_choice :: "(string \<times> net_geometry) list \<Rightarrow> net_geometry option" where
  "net_merge_choice directions =
     (case (map_of directions ''0'', map_of directions ''1'') of
        (Some d0, Some d1) \<Rightarrow>
          (let jaccard = calculate_route_overlap (ng_stop_ids d0) (ng_stop_ids d1)
           in if jaccard > MERGE_THRESHOLD
              then Some (if ng_count d0 \<ge> ng_count d1 then d0 else d1)
              else None)
      | _ \<Rightarrow> None)"

definition net_bidirectional_feature :: "string \<Rightarrow> net_geometry \<Rightarrow> net_feature" where
  "net_bidirectional_feature route_name d =
     \<lparr>nf_route_name = route_name,
      nf_search_key = route_name @ '' (Bidirectional)'',
      nf_details = name_str (ng_start d) @ '' '' @ net_arrow_both @ '' '' @ name_str (ng_end d),
      nf_stops = ng_count d,
      nf_color = ''#3388ff'',
      nf_coordinates = ng_coords d\<rparr>"

definition net_one_way_feature :: "string \<Rightarrow> string \<Rightarrow> net_geometry \<Rightarrow> net_feature" where
  "net_one_way_feature route_name dir_id d =
     (let suffix = (if dir_id = ''0'' then ''(Outbound)'' else ''(Inbound)'');
          color = (if dir_id = ''0'' then ''#ff3333'' else ''#33aa33'')
      in \<lparr>nf_route_name = route_name,
          nf_search_key = route_name @ '' '' @ suffix,
          nf_details = name_str (ng_start d) @ '' '' @ net_arrow_right @ '' '' @ name_str (ng_end d),
          nf_stops = ng_count d,
          nf_color = color,
          nf_coordinates = ng_coords d\<rparr>)"

definition net_route_features :: "string \<Rightarrow> (string \<times> net_geometry) list \<Rightarrow> net_feature list" where
  "net_route_features route_name directions =
     (case net_merge_choice directions of
        Some d \<Rightarrow> [net_bidirectional_feature route_name d]
      | None \<Rightarrow> map (\<lambda>(dir_id, d). net_one_way_feature route_name dir_id d) directions)"

definition build_features ::
  "stop_row list \<Rightarrow> stop_time_row list \<Rightarrow> trip_row list \<Rightarrow> route_row list \<Rightarrow> net_feature list" where
  "build_features stops stop_times trips routes =
     concat (map (\<lambda>(route_id, directions).
                    net_route_features (get_default (route_names routes) route_id route_id)
                      directions)
               (net_route_directions (get_representative_trips trips stop_times) stop_times stops))"

section \<open>Example feeds\<close>

definition mk_stop :: "string \<Rightarrow> string \<Rightarrow> real option \<Rightarrow> real option \<Rightarrow> stop_row" where
  "mk_stop i n la lo = \<lparr>sp_stop_id = i, sp_stop_name = Some n, sp_stop_lat = la, sp_stop_lon = lo\<rparr>"

definition mk_geo :: "string list \<Rightarrow> nat \<Rightarrow> geometry" where
  "mk_geo ids n =
     \<lparr>geo_coords = replicate n (78, 17), geo_stop_ids = fset_of_list ids, geo_stop_list = [],
      geo_start = Some ''First'', geo_end = Some ''Last'', geo_count = n\<rparr>"

definition mk_net_geo :: "string list \<Rightarrow> nat \<Rightarrow> net_geometry" where
  "mk_net_geo ids n =
     \<lparr>ng_coords = replicate n (78, 17), ng_stop_ids = fset_of_list ids,
      ng_start = Some ''First'', ng_end = Some ''Last'', ng_count = n\<rparr>"

text \<open>Route 10A: the two directions share three of five stops.\<close>

definition dirs_10A :: "(string \<times> geometry) list" where
  "dirs_10A = [(''0'', mk_geo [''S1'', ''S2'', ''S3'', ''S4''] 4),
               (''1'', mk_geo [''S2'', ''S3'', ''S4'', ''S5''] 4)]"

definition net_dirs_10A :: "(string \<times> net_geometry) list" where
  "net_dirs_10A = [(''0'', mk_net_geo [''S1'', ''S2'', ''S3'', ''S4''] 4),
                   (''1'', mk_net_geo [''S2'', ''S3'', ''S4'', ''S5''] 4)]"

text \<open>Route 5K: the two directions share no stop.\<close>

definition dirs_5K :: "(string \<times> geometry) list" where
  "dirs_5K = [(''0'', mk_geo [''A'', ''B'', ''C''] 3), (''1'', mk_geo [''D'', ''E'', ''F''] 3)]"

definition net_dirs_5K :: "(string \<times> net_geometry) list" where
  "net_dirs_5K = [(''0'', mk_net_geo [''A'', ''B'', ''C''] 3),
                  (''1'', mk_net_geo [''D'', ''E'', ''F''] 3)]"

text \<open>Two routes with one trip each; route B comes first in the trips table.\<close>

definition two_route_stops :: "stop_row list" where
  "two_route_stops = [mk_stop ''P'' ''Park'' (Some 17) (Some 78),
                      mk_stop ''Q'' ''Quay'' (Some 18) (Some 79)]"

definition two_route_trips :: "trip_row list" where
  "two_route_trips =
     [\<lparr>tr_trip_id = ''T1'', tr_route_id = ''B'', tr_direction_id = Some ''0''\<rparr>,
      \<lparr>tr_trip_id = ''T2'', tr_route_id = ''A'', tr_direction_id = Some ''0''\<rparr>]"

definition two_route_stop_times :: "stop_time_row list" where
  "two_route_stop_times = [mk_st ''T1'' ''P'' 1, mk_st ''T1'' ''Q'' 2,
                           mk_st ''T2'' ''Q'' 1, mk_st ''T2'' ''P'' 2]"

text \<open>Reading a dict of dicts at two keys, \<^verbatim>\<open>d[a][b]\<close>, with \<open>None\<close> for a missing key.\<close>

definition lookup2 :: "('a \<times> ('b \<times> 'c) list) list \<Rightarrow> 'a \<Rightarrow> 'b \<Rightarrow> 'c option" where
  "lookup2 d a b = (case map_of d a of None \<Rightarrow> None | Some inner \<Rightarrow> map_of inner b)"

text \<open>A feed whose only stop has no coordinates.\<close>

definition blank_stops :: "stop_row list" where
  "blank_stops = [mk_stop ''X'' ''Nowhere'' None None]"

definition blank_trips :: "trip_row list" where
  "blank_trips = [\<lparr>tr_trip_id = ''T1'', tr_route_id = ''R'', tr_direction_id = Some ''0''\<rparr>]"

definition blank_stop_times :: "stop_time_row list" where
  "blank_stop_times = [mk_st ''T1'' ''X'' 1, mk_st ''T1'' ''X'' 2]"

section \<open>Planner indices (old_scripts/gtfs_trip_planner.py, build_indices)\<close>

text \<open>\<^verbatim>\<open>trip_to_route\<close>: one entry per trip id, the last row of the trips table winning.\<close>

definition trip_to_route :: "trip_row list \<Rightarrow> (string \<times> string) list" where
  "trip_to_route trips =
     foldl (\<lambda>d row. dict_set (tr_trip_id row) (tr_route_id row) d) [] trips"

text \<open>
  The body of the loop over \<^verbatim>\<open>trip_stop_counts.items()\<close>. The test \<^verbatim>\<open>if rid:\<close> fails for a
  trip id that the trips table does not have and for an empty route id.
\<close>

definition rep_step ::
  "(string \<times> string) list \<Rightarrow> (string \<times> string \<times> nat) list \<Rightarrow> string \<times> nat \<Rightarrow>
   (string \<times> string \<times> nat) list" where
  "rep_step t2r route_rep_trips p =
     (case p of (tid, cnt) \<Rightarrow>
        (case map_of t2r tid of
           None \<Rightarrow> route_rep_trips
         | Some rid \<Rightarrow>
             if rid \<noteq> [] then
               (case map_of route_rep_trips rid of
                  None \<Rightarrow> dict_set rid (tid, cnt) route_rep_trips
                | Some (best_tid, best_cnt) \<Rightarrow>
                    if cnt > best_cnt then dict_set rid (tid, cnt) route_rep_trips
                    else route_rep_trips)
             else route_rep_trips))"

definition route_rep_trips ::
  "trip_row list \<Rightarrow> stop_time_row list \<Rightarrow> (string \<times> string \<times> nat) list" where
  "route_rep_trips trips stop_times =
     foldl (rep_step (trip_to_route trips)) [] (trip_counts stop_times)"

text \<open>The stop times of one trip, by ascending sequence number (stable).\<close>

definition trip_st :: "stop_time_row list \<Rightarrow> string \<Rightarrow> stop_time_row list" where
  "trip_st stop_times tid =
     sort_key st_stop_sequence (filter (\<lambda>r. st_trip_id r = tid) stop_times)"

definition route_stops :: "trip_row list \<Rightarrow> stop_time_row list \<Rightarrow> (string \<times> string list) list" where
  "route_stops trips stop_times =
     map (\<lambda>(rid, tid, cnt). (rid, map st_stop_id (trip_st stop_times tid)))
       (route_rep_trips trips stop_times)"

definition route_stop_times ::
  "trip_row list \<Rightarrow> stop_time_row list \<Rightarrow> (string \<times> stop_time_entry list) list" where
  "route_stop_times trips stop_times =
     map (\<lambda>(rid, tid, cnt).
            (rid, map (\<lambda>row. \<lparr>e_stop = st_stop_id row, e_arr = st_arrival_time row,
                               e_dep = st_departure_time row, e_seq = st_stop_sequence row\<rparr>)
                    (trip_st stop_times tid)))
       (route_rep_trips trips stop_times)"

definition route_travel_times ::
  "trip_row list \<Rightarrow> stop_time_row list \<Rightarrow> (string \<times> int list) list" where
  "route_travel_times trips stop_times =
     map (\<lambda>(rid, times). (rid, travel_times times)) (route_stop_times trips stop_times)"

text \<open>A feed with two trips of the same route, direction and length; the trips table lists
  T2 first.\<close>

definition tie_trips :: "trip_row list" where
  "tie_trips =
     [\<lparr>tr_trip_id = ''T2'', tr_route_id = ''R'', tr_direction_id = Some ''0''\<rparr>,
      \<lparr>tr_trip_id = ''T1'', tr_route_id = ''R'', tr_direction_id = Some ''0''\<rparr>]"

definition tie_stop_times :: "stop_time_row list" where
  "tie_stop_times = [mk_st ''T1'' ''A'' 1, mk_st ''T2'' ''B'' 1]"

section \<open>Route search in the browser (findRoutesRaptor of gtfs_trip_planner.py)\<close>

text \<open>
  The indices as the page receives them: JSON objects read by key, a missing key giving
  \<^verbatim>\<open>undefined\<close>, which is \<open>None\<close>. Travel times are whole numbers.
\<close>

record planner_data =
  locationStops :: "string \<rightharpoonup> string list"
  locationRoutes :: "string \<rightharpoonup> string list"
  routeStops :: "string \<rightharpoonup> string list"
  routeTravelTimes :: "string \<rightharpoonup> int list"
  stopRoutes :: "string \<rightharpoonup> string list"
  stopBaseNames :: "string \<rightharpoonup> string"

text \<open>\<^verbatim>\<open>x || []\<close>\<close>

definition or_empty :: "'a list option \<Rightarrow> 'a list" where
  "or_empty x = (case x of None \<Rightarrow> [] | Some xs \<Rightarrow> xs)"

definition getStopsAtLocation :: "planner_data \<Rightarrow> string \<Rightarrow> string list" where
  "getStopsAtLocation DATA locationName = or_empty (locationStops DATA locationName)"

text \<open>\<^verbatim>\<open>new Set(array)\<close>, in iteration order: the first occurrence of every element.\<close>

definition js_set :: "'a list \<Rightarrow> 'a list" where
  "js_set xs = drop_duplicates (\<lambda>x. x) xs"

record segment =
  seg_routeId :: string
  seg_startIdx :: int
  seg_endIdx :: int

record itinerary =
  it_type :: string
  it_routes :: "string list"
  it_segments :: "segment list"
  it_transfers :: nat
  it_duration :: int
  it_stopCount :: "int option"
  it_originStopId :: "string option"
  it_destStopId :: "string option"
  it_transferLoc :: "string option"
  it_transferStopId :: "string option"

text \<open>The four variables of the scan over one route's stops; \<open>-1\<close> and \<open>None\<close> are the
  initial \<^verbatim>\<open>-1\<close> and \<^verbatim>\<open>null\<close>.\<close>

record scan_state =
  originIdx :: int
  originStopId :: "string option"
  destIdx :: int
  destStopId :: "string option"

definition scan_step :: "string list \<Rightarrow> string list \<Rightarrow> scan_state \<Rightarrow> int \<times> string \<Rightarrow> scan_state" where
  "scan_step originStops destStops s p =
     (case p of (i, sid) \<Rightarrow>
        (let s1 = (if sid \<in> set originStops \<and> originIdx s = - 1
                   then s\<lparr>originIdx := i, originStopId := Some sid\<rparr> else s)
         in if sid \<in> set destStops \<and> i > originIdx s1 \<and> originIdx s1 \<ge> 0
            then s1\<lparr>destIdx := i, destStopId := Some sid\<rparr> else s1))"

definition enumerate_stops :: "string list \<Rightarrow> (int \<times> string) list" where
  "enumerate_stops stops = zip (map int [0..<length stops]) stops"

definition direct_scan :: "string list \<Rightarrow> string list \<Rightarrow> string list \<Rightarrow> scan_state" where
  "direct_scan originStops destStops stops =
     foldl (scan_step originStops destStops)
       \<lparr>originIdx = - 1, originStopId = None, destIdx = - 1, destStopId = None\<rparr>
       (enumerate_stops stops)"

text \<open>\<^verbatim>\<open>travelTimes[i] || 3\<close>: an index outside the array and a stored 0 both give 3.\<close>

definition time_at :: "int list \<Rightarrow> int \<Rightarrow> int" where
  "time_at travelTimes i =
     (if 0 \<le> i \<and> i < int (length travelTimes) \<and> travelTimes ! nat i \<noteq> 0
      then travelTimes ! nat i else 3)"

definition leg_duration :: "int list \<Rightarrow> int \<Rightarrow> int \<Rightarrow> int" where
  "leg_duration travelTimes from_idx to_idx = sum_list (map (time_at travelTimes) [from_idx..to_idx - 1])"

text \<open>
  The body of the loop over the direct routes. \<open>None\<close> is the TypeError of
  \<^verbatim>\<open>stops.length\<close> when the route has no entry in \<^verbatim>\<open>DATA.routeStops\<close>.
\<close>

definition direct_itinerary ::
  "planner_data \<Rightarrow> string list \<Rightarrow> string list \<Rightarrow> string \<Rightarrow> itinerary list option" where
  "direct_itinerary DATA originStops destStops routeId =
     (case routeStops DATA routeId of
        None \<Rightarrow> None
      | Some stops \<Rightarrow>
          (let s = direct_scan originStops destStops stops
           in if originIdx s \<ge> 0 \<and> destIdx s > originIdx s then
                (let travelTimes = or_empty (routeTravelTimes DATA routeId);
                     duration = leg_duration travelTimes (originIdx s) (destIdx s)
                 in Some [\<lparr>it_type = ''direct'', it_routes = [routeId],
                           it_segments = [\<lparr>seg_routeId = routeId, seg_startIdx = originIdx s,
                                           seg_endIdx = destIdx s\<rparr>],
                           it_transfers = 0, it_duration = duration,
                           it_stopCount = Some (destIdx s - originIdx s + 1),
                           it_originStopId = originStopId s, it_destStopId = destStopId s,
                           it_transferLoc = None, it_transferStopId = None\<rparr>])
              else Some []))"

text \<open>The first index at or after \<open>i\<close> whose element satisfies the test, counting the head of
  the list as index \<open>i\<close>; \<open>-1\<close> when there is none.\<close>

fun find_first :: "('a \<Rightarrow> bool) \<Rightarrow> 'a list \<Rightarrow> int \<Rightarrow> int" where
  "find_first P [] i = - 1"
| "find_first P (x # xs) i = (if P x then i else find_first P xs (i + 1))"

definition find_from :: "('a \<Rightarrow> bool) \<Rightarrow> 'a list \<Rightarrow> int \<Rightarrow> int" where
  "find_from P xs start = find_first P (drop (nat start) xs) start"

definition indexOf :: "'a list \<Rightarrow> 'a \<Rightarrow> int" where
  "indexOf xs x = find_first (\<lambda>y. y = x) xs 0"

text \<open>The body of the loop over \<^verbatim>\<open>transferRoutes\<close>, for the transfer stop at index \<open>i\<close> of
  the first route.\<close>

definition transfer_via ::
  "planner_data \<Rightarrow> string list \<Rightarrow> string list \<Rightarrow> string \<Rightarrow> int \<Rightarrow> string \<Rightarrow> int \<Rightarrow>
   string \<Rightarrow> string \<Rightarrow> itinerary list" where
  "transfer_via DATA destStops destRoutes route1 originIdx1 originStopId1 i transferStopId route2 =
     (if route2 = route1 then []
      else if route2 \<notin> set destRoutes then []
      else
        (let stops2 = or_empty (routeStops DATA route2);
             transferIdx2 = indexOf stops2 transferStopId;
             destIdx2 = find_from (\<lambda>s. s \<in> set destStops) stops2 (transferIdx2 + 1)
         in if transferIdx2 \<ge> 0 \<and> destIdx2 > transferIdx2 then
              (let times1 = or_empty (routeTravelTimes DATA route1);
                   times2 = or_empty (routeTravelTimes DATA route2);
                   dur1 = leg_duration times1 originIdx1 i;
                   dur2 = leg_duration times2 transferIdx2 destIdx2
               in [\<lparr>it_type = ''transfer'', it_routes = [route1, route2],
                    it_segments = [\<lparr>seg_routeId = route1, seg_startIdx = originIdx1,
                                    seg_endIdx = i\<rparr>,
                                   \<lparr>seg_routeId = route2, seg_startIdx = transferIdx2,
                                    seg_endIdx = destIdx2\<rparr>],
                    it_transfers = 1, it_duration = dur1 + 5 + dur2,
                    it_stopCount = None,
                    it_originStopId = Some originStopId1,
                    it_destStopId = Some (stops2 ! nat destIdx2),
                    it_transferLoc = stopBaseNames DATA transferStopId,
                    it_transferStopId = Some transferStopId\<rparr>])
            else []))"

text \<open>The body of the loop over the origin routes.\<close>

definition transfer_itineraries ::
  "planner_data \<Rightarrow> string list \<Rightarrow> string list \<Rightarrow> string list \<Rightarrow> string \<Rightarrow> itinerary list" where
  "transfer_itineraries DATA originStops destStops destRoutes route1 =
     (let stops1 = or_empty (routeStops DATA route1);
          originIdx1 = find_first (\<lambda>s. s \<in> set originStops) stops1 0
      in if originIdx1 < 0 then []
         else
           concat (map (\<lambda>i.
               (let transferStopId = stops1 ! nat i;
                    transferRoutes = or_empty (stopRoutes DATA transferStopId)
                in concat (map (transfer_via DATA destStops destRoutes route1 originIdx1
                                  (stops1 ! nat originIdx1) i transferStopId)
                             transferRoutes)))
             [originIdx1 + 1 .. min (int (length stops1)) (originIdx1 + 20) - 1]))"

text \<open>\<^verbatim>\<open>routes.join('-')\<close>\<close>

fun join_dash :: "string list \<Rightarrow> string" where
  "join_dash [] = []"
| "join_dash [x] = x"
| "join_dash (x # y # ys) = x @ ''-'' @ join_dash (y # ys)"

definition route_key :: "itinerary \<Rightarrow> string" where
  "route_key r = join_dash (it_routes r)"

text \<open>The comparator \<^verbatim>\<open>a.duration - b.duration || a.transfers - b.transfers\<close> orders by
  duration, then by transfers; \<^verbatim>\<open>Array.prototype.sort\<close> is stable.\<close>

definition rank :: "itinerary \<Rightarrow> int \<times> nat" where
  "rank r = (it_duration r, it_transfers r)"

definition sort_results :: "itinerary list \<Rightarrow> itinerary list" where
  "sort_results results = sort_key rank results"

text \<open>The loop that fills \<^verbatim>\<open>unique\<close>; it breaks as soon as five itineraries are kept.\<close>

fun dedupe :: "string list \<Rightarrow> itinerary list \<Rightarrow> itinerary list \<Rightarrow> itinerary list" where
  "dedupe seen unique [] = unique"
| "dedupe seen unique (r # rs) =
     (let key = route_key r
      in if key \<notin> set seen then
           (let unique' = unique @ [r]
            in if length unique' \<ge> 5 then unique' else dedupe (key # seen) unique' rs)
         else dedupe seen unique rs)"

text \<open>The itineraries pushed before the sort: the direct ones, then the one-transfer ones
  when fewer than three direct itineraries were found. \<open>None\<close> is the TypeError of the
  direct loop.\<close>

definition collect_results ::
  "planner_data \<Rightarrow> string list \<Rightarrow> string list \<Rightarrow> string \<Rightarrow> string \<Rightarrow> itinerary list option" where
  "collect_results DATA originStops destStops originLoc destLoc =
     (let originRoutes = js_set (or_empty (locationRoutes DATA originLoc));
          destRoutes = js_set (or_empty (locationRoutes DATA destLoc));
          directRoutes = filter (\<lambda>r. r \<in> set destRoutes) originRoutes
      in case those (map (direct_itinerary DATA originStops destStops) directRoutes) of
           None \<Rightarrow> None
         | Some direct \<Rightarrow>
             (let results = concat direct
              in if length results < 3
                 then Some (results @ concat (map (transfer_itineraries DATA originStops
                                                      destStops destRoutes) originRoutes))
                 else Some results))"

definition findRoutesRaptor :: "planner_data \<Rightarrow> string \<Rightarrow> string \<Rightarrow> itinerary list option" where
  "findRoutesRaptor DATA originLoc destLoc =
     (let originStops = getStopsAtLocation DATA originLoc;
          destStops = getStopsAtLocation DATA destLoc
      in if originStops = [] \<or> destStops = [] then Some []
         else
           (case collect_results DATA originStops destStops originLoc destLoc of
              None \<Rightarrow> None
            | Some results \<Rightarrow> Some (dedupe [] [] (sort_results results))))"

text \<open>The properties the scan is measured against: the first origin stop of a sequence, and
  the last and the first destination stop behind a given index.\<close>

definition first_origin :: "string list \<Rightarrow> string list \<Rightarrow> nat \<Rightarrow> bool" where
  "first_origin originStops stops i \<longleftrightarrow>
     i < length stops \<and> stops ! i \<in> set originStops \<and>
     (\<forall>k \<in> set [0..<i]. stops ! k \<notin> set originStops)"

definition last_dest_after :: "string list \<Rightarrow> string list \<Rightarrow> nat \<Rightarrow> nat \<Rightarrow> bool" where
  "last_dest_after destStops stops i j \<longleftrightarrow>
     i < j \<and> j < length stops \<and> stops ! j \<in> set destStops \<and>
     (\<forall>k \<in> set [Suc j..<length stops]. stops ! k \<notin> set destStops)"

definition first_dest_after :: "string list \<Rightarrow> string list \<Rightarrow> nat \<Rightarrow> nat \<Rightarrow> bool" where
  "first_dest_after destStops stops i j \<longleftrightarrow>
     i < j \<and> j < length stops \<and> stops ! j \<in> set destStops \<and>
     (\<forall>k \<in> set [Suc i..<j]. stops ! k \<notin> set destStops)"

text \<open>Route 12 passes two stops of the destination place after the origin stop.\<close>

definition two_dest_data :: planner_data where
  "two_dest_data =
     \<lparr>locationStops = map_of [(''X'', [''O'']), (''Y'', [''D1'', ''D2''])],
      locationRoutes = map_of [(''X'', [''12'']), (''Y'', [''12''])],
      routeStops = map_of [(''12'', [''O'', ''D1'', ''M'', ''D2''])],
      routeTravelTimes = map_of [(''12'', [2, 4, 6])],
      stopRoutes = map_of [(''O'', [''12'']), (''D1'', [''12'']), (''M'', [''12'']),
                           (''D2'', [''12''])],
      stopBaseNames = map_of [(''O'', ''X''), (''D1'', ''Y''), (''M'', ''M''), (''D2'', ''Y'')]\<rparr>"

text \<open>Routes A and B both run from the origin stop over a common stop to the destination
  stop.\<close>

definition swap_data :: planner_data where
  "swap_data =
     \<lparr>locationStops = map_of [(''X'', [''x'']), (''Y'', [''y''])],
      locationRoutes = map_of [(''X'', [''A'', ''B'']), (''Y'', [''A'', ''B''])],
      routeStops = map_of [(''A'', [''x'', ''m'', ''y'']), (''B'', [''x'', ''m'', ''y''])],
      routeTravelTimes = map_of [(''A'', [2, 2]), (''B'', [2, 2])],
      stopRoutes = map_of [(''x'', [''A'', ''B'']), (''m'', [''A'', ''B'']),
                           (''y'', [''A'', ''B''])],
      stopBaseNames = map_of [(''x'', ''X''), (''m'', ''M''), (''y'', ''Y'')]\<rparr>"

text \<open>Routes A and B meet at two stops, so two transfer itineraries use the same routes in
  the same order.\<close>

definition dup_data :: planner_data where
  "dup_data =
     \<lparr>locationStops = map_of [(''X'', [''x'']), (''Y'', [''y''])],
      locationRoutes = map_of [(''X'', [''A'']), (''Y'', [''B''])],
      routeStops = map_of [(''A'', [''x'', ''m1'', ''m2'', ''q'']),
                           (''B'', [''p'', ''m1'', ''m2'', ''y''])],
      routeTravelTimes = map_of [(''A'', [2, 3, 1]), (''B'', [1, 9, 2])],
      stopRoutes = map_of [(''x'', [''A'']), (''m1'', [''A'', ''B'']), (''m2'', [''A'', ''B'']),
                           (''q'', [''A'']), (''p'', [''B'']), (''y'', [''B''])],
      stopBaseNames = map_of [(''x'', ''X''), (''m1'', ''M1''), (''m2'', ''M2''),
                              (''q'', ''Q''), (''p'', ''P''), (''y'', ''Y'')]\<rparr>"

text \<open>No destination stop behind index \<open>i\<close>.\<close>

definition no_dest_after :: "string list \<Rightarrow> string list \<Rightarrow> nat \<Rightarrow> bool" where
  "no_dest_after destStops stops i \<longleftrightarrow> (\<forall>k \<in> set [Suc i..<length stops]. stops ! k \<notin> set destStops)"

text \<open>The state of the scan after any sequence of stops.\<close>

definition scan_result :: "string list \<Rightarrow> string list \<Rightarrow> string list \<Rightarrow> scan_state \<Rightarrow> bool" where
  "scan_result originStops destStops stops s \<longleftrightarrow>
     (originIdx s = - 1 \<and> destIdx s = - 1 \<and> set stops \<inter> set originStops = {}) \<or>
     (\<exists>i. originIdx s = int i \<and> first_origin originStops stops i \<and>
          originStopId s = Some (stops ! i) \<and>
          ((destIdx s = - 1 \<and> no_dest_after destStops stops i) \<or>
           (\<exists>j. destIdx s = int j \<and> last_dest_after destStops stops i j \<and>
                destStopId s = Some (stops ! j))))"

text \<open>Every stop visit of a trip lacks a parseable coordinate: each stops-table row of each
  stop the trip visits has no latitude or no longitude.\<close>

definition blank_trip :: "stop_time_row list \<Rightarrow> stop_row list \<Rightarrow> string \<Rightarrow> bool" where
  "blank_trip stop_times stops tid \<longleftrightarrow>
     (\<forall>v \<in> set stop_times. \<forall>s \<in> set stops.
        st_trip_id v = tid \<and> sp_stop_id s = st_stop_id v \<longrightarrow>
        sp_stop_lat s = None \<or> sp_stop_lon s = None)"

section \<open>Properties of the travel-time estimates\<close>

lemma length_travel_times: "length (travel_times ts) = length ts - 1"
  by (induction ts rule: travel_times.induct) auto

lemma travel_times_nth:
  "i < length ts - 1 \<Longrightarrow>
   travel_times ts ! i = segment_duration (e_dep (ts ! i)) (e_arr (ts ! Suc i))"
proof (induction ts arbitrary: i rule: travel_times.induct)
  case (1 a b rest)
  then show ?case by (cases i) auto
qed auto

lemma segment_duration_range: "1 \<le> segment_duration dep arr \<and> segment_duration dep arr \<le> 30"
  by (auto simp: segment_duration_def Let_def split: option.splits)

lemma segment_duration_unparseable:
  "time_to_minutes dep = None \<or> time_to_minutes arr = None \<Longrightarrow> segment_duration dep arr = 3"
  by (auto simp: segment_duration_def split: option.splits)

lemma segment_duration_negative:
  "time_to_minutes dep = Some t1 \<Longrightarrow> time_to_minutes arr = Some t2 \<Longrightarrow> t2 - t1 < 0 \<Longrightarrow>
   segment_duration dep arr = 3"
  by (simp add: segment_duration_def)

text \<open>
  Claim C4. The list stored for a route has one estimate per consecutive pair of entries.
  Every estimate is between 1 and 30 minutes, and it is exactly 3 when the departure cell of
  the segment's first entry or the arrival cell of its second entry does not parse, and when
  both parse but the arrival minute count is below the departure minute count.
\<close>

theorem travel_time_clamp:
  "length (travel_times ts) = length ts - 1 \<and>
   (\<forall>i < length ts - 1.
      1 \<le> travel_times ts ! i \<and> travel_times ts ! i \<le> 30 \<and>
      (time_to_minutes (e_dep (ts ! i)) = None \<longrightarrow> travel_times ts ! i = 3) \<and>
      (time_to_minutes (e_arr (ts ! Suc i)) = None \<longrightarrow> travel_times ts ! i = 3) \<and>
      (\<forall>t1 t2. time_to_minutes (e_dep (ts ! i)) = Some t1 \<and>
               time_to_minutes (e_arr (ts ! Suc i)) = Some t2 \<and> t2 - t1 < 0 \<longrightarrow>
               travel_times ts ! i = 3))"
  using segment_duration_range segment_duration_unparseable segment_duration_negative
  by (simp add: length_travel_times travel_times_nth)

theorem travel_time_clamp_witness:
  "(0::nat) < length clamp_example - 1 \<and>
   time_to_minutes (e_dep (clamp_example ! 0)) = Some 490 \<and>
   time_to_minutes (e_arr (clamp_example ! Suc 0)) = Some 485 \<and>
   (485::int) - 490 < 0 \<and>
   time_to_minutes (e_arr (clamp_example ! Suc 1)) = None \<and>
   travel_times clamp_example ! 0 = 3 \<and>
   travel_times clamp_example ! 1 = 3 \<and>
   1 \<le> travel_times clamp_example ! 2 \<and> travel_times clamp_example ! 2 \<le> 30"
proof -
  have len: "length clamp_example - 1 = 3" by (simp add: clamp_example_def)
  have t1: "time_to_minutes (e_dep (clamp_example ! 0)) = Some 490"
    unfolding clamp_example_def by code_simp
  have t2: "time_to_minutes (e_arr (clamp_example ! Suc 0)) = Some 485"
    unfolding clamp_example_def by code_simp
  have t3: "time_to_minutes (e_arr (clamp_example ! Suc 1)) = None"
    unfolding clamp_example_def by code_simp
  note c = travel_time_clamp [of clamp_example, THEN conjunct2, rule_format]
  have a: "travel_times clamp_example ! 0 = 3"
    using c [of 0] t1 t2 len by simp
  have b: "travel_times clamp_example ! 1 = 3"
    using c [of 1] t3 len by simp
  have d: "1 \<le> travel_times clamp_example ! 2 \<and> travel_times clamp_example ! 2 \<le> 30"
    using c [of 2] len by simp
  show ?thesis using len t1 t2 t3 a b d by simp
qed

lemma split_colon_field:
  "CHR '':'' \<notin> set h \<Longrightarrow> split_colon (h @ CHR '':'' # r) = h # split_colon r"
  by (induction h) (auto split: list.splits)

lemma time_to_minutes_fields:
  assumes "CHR '':'' \<notin> set h" "CHR '':'' \<notin> set m"
  shows "time_to_minutes (Some (h @ CHR '':'' # m @ CHR '':'' # s)) =
         (case py_int h of None \<Rightarrow> None
          | Some a \<Rightarrow> (case py_int m of None \<Rightarrow> None | Some b \<Rightarrow> Some (a * 60 + b)))"
  using assms by (simp add: time_to_minutes_def split_colon_field split: list.splits)

text \<open>
  Claim C10. Only the first two colon-separated fields of a clock string are read: two
  strings with the same hour and minute fields and any text after the second colon give the
  same minute count. A segment that departs and arrives within the same minute therefore
  has a gap of 0, stored as the minimum 1 (as 3 when the hour or minute field does not
  parse). The witness is the 30-second gap from 08:00:00 to 08:00:30.
\<close>

theorem seconds_field_ignored:
  assumes "CHR '':'' \<notin> set h" and "CHR '':'' \<notin> set m"
  shows "time_to_minutes (Some (h @ '':'' @ m @ '':'' @ s)) =
           time_to_minutes (Some (h @ '':'' @ m @ '':'' @ s')) \<and>
         segment_duration (Some (h @ '':'' @ m @ '':'' @ s)) (Some (h @ '':'' @ m @ '':'' @ s')) =
           (if py_int h = None \<or> py_int m = None then 3 else 1)"
proof -
  have a: "time_to_minutes (Some (h @ '':'' @ m @ '':'' @ s)) =
           time_to_minutes (Some (h @ '':'' @ m @ '':'' @ s'))"
    using assms by (simp add: time_to_minutes_fields)
  have b: "segment_duration (Some (h @ '':'' @ m @ '':'' @ s)) (Some (h @ '':'' @ m @ '':'' @ s')) =
           (if py_int h = None \<or> py_int m = None then 3 else 1)"
    using assms by (simp add: time_to_minutes_fields segment_duration_def split: option.splits)
  from a b show ?thesis by blast
qed

theorem seconds_field_ignored_witness:
  "CHR '':'' \<notin> set ''08'' \<and> CHR '':'' \<notin> set ''00'' \<and>
   time_to_minutes (Some ''08:00:00'') = time_to_minutes (Some ''08:00:30'') \<and>
   time_to_minutes (Some ''08:00:30'') = Some 480 \<and>
   segment_duration (Some ''08:00:00'') (Some ''08:00:30'') = 1"
proof -
  have h: "CHR '':'' \<notin> set ''08''" and m: "CHR '':'' \<notin> set ''00''" by simp_all
  have p: "py_int ''08'' \<noteq> None \<and> py_int ''00'' \<noteq> None" by code_simp
  have v: "time_to_minutes (Some ''08:00:30'') = Some 480" by code_simp
  from seconds_field_ignored [OF h m, of "''00''" "''30''"] p v h m
  show ?thesis by simp
qed

section \<open>Properties of the overlap measure\<close>

lemma fcard_pos: "A \<noteq> {||} \<Longrightarrow> 0 < fcard A"
  by (metis fcard_fempty fcard_seteq le_zero_eq fempty_fsubsetI not_gr_zero)

text \<open>
  Claim C7. The overlap of two stop sets does not depend on their order, it is 0 when
  either set is empty, and it is 1 for a non-empty set against itself.
\<close>

theorem jaccard_properties:
  "calculate_route_overlap A B = calculate_route_overlap B A \<and>
   calculate_route_overlap {||} B = 0 \<and>
   calculate_route_overlap A {||} = 0 \<and>
   (A \<noteq> {||} \<longrightarrow> calculate_route_overlap A A = 1)"
  using fcard_pos [of A]
  by (auto simp: calculate_route_overlap_def Let_def inf_commute sup_commute)

theorem jaccard_properties_witness:
  "{|''S1'', ''S2''|} \<noteq> {||} \<and>
   calculate_route_overlap {|''S1'', ''S2''|} {|''S1'', ''S2''|} = 1 \<and>
   calculate_route_overlap {|''S1'', ''S2''|} {|''S2'', ''S3''|} =
     calculate_route_overlap {|''S2'', ''S3''|} {|''S1'', ''S2''|}"
  using jaccard_properties [of "{|''S1'', ''S2''|}" "{|''S2'', ''S3''|}"] by simp

section \<open>Properties of the representative trips\<close>

lemma ddf_subset: "set (drop_duplicates_from seen key xs) \<subseteq> set xs"
  by (induction xs arbitrary: seen) auto

lemma ddf_keys_fresh: "r \<in> set (drop_duplicates_from seen key xs) \<Longrightarrow> key r \<notin> set seen"
proof (induction xs arbitrary: seen)
  case Nil
  then show ?case by simp
next
  case (Cons x xs)
  show ?case
  proof (cases "key x \<in> set seen")
    case True
    with Cons.prems have "r \<in> set (drop_duplicates_from seen key xs)" by simp
    then show ?thesis by (rule Cons.IH)
  next
    case False
    with Cons.prems have "r = x \<or> r \<in> set (drop_duplicates_from (key x # seen) key xs)"
      by simp
    then show ?thesis
    proof
      assume "r = x" with False show ?thesis by simp
    next
      assume "r \<in> set (drop_duplicates_from (key x # seen) key xs)"
      then have "key r \<notin> set (key x # seen)" by (rule Cons.IH)
      then show ?thesis by simp
    qed
  qed
qed

lemma ddf_distinct: "distinct (map key (drop_duplicates_from seen key xs))"
proof (induction xs arbitrary: seen)
  case Nil
  show ?case by simp
next
  case (Cons x xs)
  have "key x \<notin> key ` set (drop_duplicates_from (key x # seen) key xs)"
  proof
    assume "key x \<in> key ` set (drop_duplicates_from (key x # seen) key xs)"
    then obtain r where r: "r \<in> set (drop_duplicates_from (key x # seen) key xs)"
      and k: "key r = key x" by auto
    from ddf_keys_fresh [OF r] k show False by simp
  qed
  then show ?case using Cons.IH by simp
qed

lemma ddf_first_wins:
  assumes "sorted (map (\<lambda>r. - int (c r)) xs)"
    and "r \<in> set (drop_duplicates_from seen key xs)"
    and "y \<in> set xs" and "key y = key r"
  shows "c y \<le> c r"
  using assms
proof (induction xs arbitrary: seen)
  case Nil
  then show ?case by simp
next
  case (Cons x xs)
  have tail: "\<forall>z \<in> set xs. c z \<le> c x"
    using Cons.prems(1) by auto
  have srt: "sorted (map (\<lambda>r. - int (c r)) xs)"
    using Cons.prems(1) by simp
  show ?case
  proof (cases "key x \<in> set seen")
    case True
    then have r: "r \<in> set (drop_duplicates_from seen key xs)"
      using Cons.prems(2) by simp
    then have "key r \<notin> set seen" by (rule ddf_keys_fresh)
    with True Cons.prems(4) have "y \<noteq> x" by auto
    with Cons.prems(3) have "y \<in> set xs" by simp
    from Cons.IH [OF srt r this Cons.prems(4)] show ?thesis .
  next
    case False
    then have "r = x \<or> r \<in> set (drop_duplicates_from (key x # seen) key xs)"
      using Cons.prems(2) by simp
    then show ?thesis
    proof
      assume "r = x"
      then show ?thesis using tail Cons.prems(3) by auto
    next
      assume r: "r \<in> set (drop_duplicates_from (key x # seen) key xs)"
      then have "key r \<noteq> key x" using ddf_keys_fresh [OF r] by simp
      with Cons.prems(4) have "y \<noteq> x" by auto
      with Cons.prems(3) have "y \<in> set xs" by simp
      from Cons.IH [OF srt r this Cons.prems(4)] show ?thesis .
    qed
  qed
qed

lemma sorted_sort_values_desc: "sorted (map (\<lambda>r. - int (c r)) (sort_values_desc c xs))"
  by (simp add: sort_values_desc_def)

lemma set_sort_values_desc: "set (sort_values_desc c xs) = set xs"
  by (simp add: sort_values_desc_def)

lemma map_of_trip_counts:
  "map_of (trip_counts stop_times) tid =
     (if tid \<in> st_trip_id ` set stop_times then Some (visit_count stop_times tid) else None)"
proof -
  have "map_of (map (\<lambda>k. (k, f k)) ks) tid = (if tid \<in> set ks then Some (f tid) else None)"
    for f :: "string \<Rightarrow> nat" and ks
    by (induction ks) auto
  then show ?thesis by (simp add: trip_counts_def)
qed

lemma visit_count_zero: "tid \<notin> st_trip_id ` set stop_times \<Longrightarrow> visit_count stop_times tid = 0"
  by (auto simp: visit_count_def filter_empty_conv)

lemma set_trips_enriched:
  "set (trips_enriched trips stop_times) =
     {\<lparr>rp_trip_id = tr_trip_id t, rp_route_id = tr_route_id t,
       rp_direction_id = fill_direction (tr_direction_id t),
       rp_stop_count = visit_count stop_times (tr_trip_id t)\<rparr> | t.
      t \<in> set trips \<and> tr_trip_id t \<in> st_trip_id ` set stop_times}"
  unfolding trips_enriched_def List.map_filter_def map_of_trip_counts
  by (auto split: if_splits)

lemma representative_in_enriched:
  "set (get_representative_trips trips stop_times) \<subseteq> set (trips_enriched trips stop_times)"
  unfolding get_representative_trips_def drop_duplicates_def
  using ddf_subset [of "[]" _ "sort_values_desc rp_stop_count (trips_enriched trips stop_times)"]
  by (simp add: set_sort_values_desc)

lemma representative_longest:
  assumes r: "r \<in> set (get_representative_trips trips stop_times)"
    and t: "t \<in> set trips"
    and k: "tr_route_id t = rp_route_id r" "fill_direction (tr_direction_id t) = rp_direction_id r"
  shows "visit_count stop_times (tr_trip_id t) \<le> rp_stop_count r"
proof (cases "tr_trip_id t \<in> st_trip_id ` set stop_times")
  case False
  then show ?thesis by (simp add: visit_count_zero)
next
  case True
  define y where "y = \<lparr>rp_trip_id = tr_trip_id t, rp_route_id = tr_route_id t,
       rp_direction_id = fill_direction (tr_direction_id t),
       rp_stop_count = visit_count stop_times (tr_trip_id t)\<rparr>"
  have "y \<in> set (trips_enriched trips stop_times)"
    unfolding set_trips_enriched y_def using t True by blast
  then have y: "y \<in> set (sort_values_desc rp_stop_count (trips_enriched trips stop_times))"
    by (simp add: set_sort_values_desc)
  have ky: "(rp_route_id y, rp_direction_id y) = (rp_route_id r, rp_direction_id r)"
    using k by (simp add: y_def)
  have "rp_stop_count y \<le> rp_stop_count r"
    using ddf_first_wins [OF sorted_sort_values_desc _ y ky] r
    unfolding get_representative_trips_def drop_duplicates_def by blast
  then show ?thesis by (simp add: y_def)
qed

text \<open>
  Claim C5. The representative trips hold at most one row per (route id, direction flag)
  pair, missing flags read as '0'. Every row is a trip of the trips table with its own
  visit count, and no trip of the table with the same pair has more stop visits.
\<close>

theorem representative_trips_unique_and_longest:
  "distinct (map (\<lambda>r. (rp_route_id r, rp_direction_id r))
               (get_representative_trips trips stop_times)) \<and>
   (\<forall>r \<in> set (get_representative_trips trips stop_times).
      rp_stop_count r = visit_count stop_times (rp_trip_id r) \<and>
      (\<exists>t \<in> set trips. tr_trip_id t = rp_trip_id r \<and> tr_route_id t = rp_route_id r \<and>
                        fill_direction (tr_direction_id t) = rp_direction_id r) \<and>
      (\<forall>t \<in> set trips.
         tr_route_id t = rp_route_id r \<and> fill_direction (tr_direction_id t) = rp_direction_id r \<longrightarrow>
         visit_count stop_times (tr_trip_id t) \<le> visit_count stop_times (rp_trip_id r)))"
proof -
  let ?reps = "get_representative_trips trips stop_times"
  have d: "distinct (map (\<lambda>r. (rp_route_id r, rp_direction_id r)) ?reps)"
    unfolding get_representative_trips_def drop_duplicates_def by (rule ddf_distinct)
  have e: "r \<in> set (trips_enriched trips stop_times)" if "r \<in> set ?reps" for r
    using that representative_in_enriched by blast
  have c: "rp_stop_count r = visit_count stop_times (rp_trip_id r)" if "r \<in> set ?reps" for r
    using e [OF that] unfolding set_trips_enriched by auto
  have t: "\<exists>t \<in> set trips. tr_trip_id t = rp_trip_id r \<and> tr_route_id t = rp_route_id r \<and>
                        fill_direction (tr_direction_id t) = rp_direction_id r"
    if "r \<in> set ?reps" for r
    using e [OF that] unfolding set_trips_enriched by auto
  have m: "visit_count stop_times (tr_trip_id t) \<le> visit_count stop_times (rp_trip_id r)"
    if "r \<in> set ?reps" "t \<in> set trips" "tr_route_id t = rp_route_id r"
      "fill_direction (tr_direction_id t) = rp_direction_id r" for r t
    using representative_longest [OF that] c [OF that(1)] by simp
  from d c t m show ?thesis by blast
qed

theorem representative_trips_unique_and_longest_witness:
  "map (\<lambda>r. (rp_trip_id r, rp_route_id r, rp_direction_id r, rp_stop_count r))
     (get_representative_trips ex_trips ex_st) = [(''T4'', ''R'', ''1'', 2), (''T2'', ''R'', ''0'', 1)] \<and>
   visit_count ex_st ''T3'' \<le> visit_count ex_st ''T4'' \<and>
   visit_count ex_st ''T1'' \<le> visit_count ex_st ''T2''"
proof -
  have v: "map (\<lambda>r. (rp_trip_id r, rp_route_id r, rp_direction_id r, rp_stop_count r))
     (get_representative_trips ex_trips ex_st) = [(''T4'', ''R'', ''1'', 2), (''T2'', ''R'', ''0'', 1)]"
    by code_simp
  then obtain r4 r2 where rs: "get_representative_trips ex_trips ex_st = [r4, r2]"
    and r4: "rp_trip_id r4 = ''T4''" "rp_route_id r4 = ''R''" "rp_direction_id r4 = ''1''"
    and r2: "rp_trip_id r2 = ''T2''" "rp_route_id r2 = ''R''" "rp_direction_id r2 = ''0''"
    by auto
  note th = representative_trips_unique_and_longest [of ex_trips ex_st, THEN conjunct2, rule_format]
  have t3: "\<lparr>tr_trip_id = ''T3'', tr_route_id = ''R'', tr_direction_id = Some ''1''\<rparr> \<in> set ex_trips"
    and t1: "\<lparr>tr_trip_id = ''T1'', tr_route_id = ''R'', tr_direction_id = Some ''0''\<rparr> \<in> set ex_trips"
    by (simp_all add: ex_trips_def)
  have a: "visit_count ex_st ''T3'' \<le> visit_count ex_st ''T4''"
    using th [of r4, THEN conjunct2, THEN conjunct2, rule_format, OF _ t3] rs r4
    by (simp add: fill_direction_def)
  have b: "visit_count ex_st ''T1'' \<le> visit_count ex_st ''T2''"
    using th [of r2, THEN conjunct2, THEN conjunct2, rule_format, OF _ t1] rs r2
    by (simp add: fill_direction_def)
  from v a b show ?thesis by blast
qed

section \<open>Properties of the merge decision\<close>

lemma length_route_features:
  "length (route_features rid name directions) =
     (if merge_choice directions = None then length directions else 1)"
  by (simp add: route_features_def split: option.splits)

lemma length_net_route_features:
  "length (net_route_features name directions) =
     (if net_merge_choice directions = None then length directions else 1)"
  by (simp add: net_route_features_def split: option.splits)

lemma binary_keys_length:
  assumes "distinct ks" and "set ks \<subseteq> {''0'', ''1''}"
  shows "length ks \<le> 2"
proof -
  have "length ks = card (set ks)" using assms(1) by (simp add: distinct_card)
  also have "\<dots> \<le> card {''0'', ''1''}" using assms(2) by (intro card_mono) auto
  also have "\<dots> = 2" by simp
  finally show ?thesis .
qed

text \<open>
  Claim C1. For a route whose directions hold both '0' and '1', both generators emit exactly
  one feature when the overlap of the two stop-id sets is strictly above the threshold, and
  one feature per direction otherwise; a route that lacks one of the two emits one feature
  per direction as well. With the binary direction flag of the feed that is one or two
  features.
\<close>

theorem merge_or_split_count:
  "(map_of directions ''0'' = Some d0 \<and> map_of directions ''1'' = Some d1 \<longrightarrow>
      length (route_features rid name directions) =
        (if calculate_route_overlap (geo_stop_ids d0) (geo_stop_ids d1) > MERGE_THRESHOLD
         then 1 else length directions)) \<and>
   (map_of ndirections ''0'' = Some n0 \<and> map_of ndirections ''1'' = Some n1 \<longrightarrow>
      length (net_route_features name ndirections) =
        (if calculate_route_overlap (ng_stop_ids n0) (ng_stop_ids n1) > MERGE_THRESHOLD
         then 1 else length ndirections)) \<and>
   (map_of directions ''0'' = None \<or> map_of directions ''1'' = None \<longrightarrow>
      length (route_features rid name directions) = length directions) \<and>
   (map_of ndirections ''0'' = None \<or> map_of ndirections ''1'' = None \<longrightarrow>
      length (net_route_features name ndirections) = length ndirections) \<and>
   (distinct (map fst directions) \<and> set (map fst directions) \<subseteq> {''0'', ''1''} \<longrightarrow>
      length directions \<le> 2) \<and>
   (distinct (map fst ndirections) \<and> set (map fst ndirections) \<subseteq> {''0'', ''1''} \<longrightarrow>
      length ndirections \<le> 2)"
proof -
  have a: "distinct (map fst directions) \<and> set (map fst directions) \<subseteq> {''0'', ''1''} \<longrightarrow>
      length directions \<le> 2"
    using binary_keys_length [of "map fst directions"] by simp
  have b: "distinct (map fst ndirections) \<and> set (map fst ndirections) \<subseteq> {''0'', ''1''} \<longrightarrow>
      length ndirections \<le> 2"
    using binary_keys_length [of "map fst ndirections"] by simp
  have c: "map_of directions ''0'' = Some d0 \<and> map_of directions ''1'' = Some d1 \<longrightarrow>
      length (route_features rid name directions) =
        (if calculate_route_overlap (geo_stop_ids d0) (geo_stop_ids d1) > MERGE_THRESHOLD
         then 1 else length directions)"
    by (simp add: length_route_features merge_choice_def Let_def)
  have d: "map_of ndirections ''0'' = Some n0 \<and> map_of ndirections ''1'' = Some n1 \<longrightarrow>
      length (net_route_features name ndirections) =
        (if calculate_route_overlap (ng_stop_ids n0) (ng_stop_ids n1) > MERGE_THRESHOLD
         then 1 else length ndirections)"
    by (simp add: length_net_route_features net_merge_choice_def Let_def)
  have e: "map_of directions ''0'' = None \<or> map_of directions ''1'' = None \<longrightarrow>
      length (route_features rid name directions) = length directions"
    by (auto simp: length_route_features merge_choice_def split: option.splits)
  have f: "map_of ndirections ''0'' = None \<or> map_of ndirections ''1'' = None \<longrightarrow>
      length (net_route_features name ndirections) = length ndirections"
    by (auto simp: length_net_route_features net_merge_choice_def split: option.splits)
  from a b c d e f show ?thesis by blast
qed

theorem merge_or_split_count_witness:
  "map_of dirs_10A ''0'' = Some (mk_geo [''S1'', ''S2'', ''S3'', ''S4''] 4) \<and>
   map_of dirs_10A ''1'' = Some (mk_geo [''S2'', ''S3'', ''S4'', ''S5''] 4) \<and>
   calculate_route_overlap (fset_of_list [''S1'', ''S2'', ''S3'', ''S4''])
     (fset_of_list [''S2'', ''S3'', ''S4'', ''S5'']) = 3 / 5 \<and>
   length (route_features ''10A'' ''10A'' dirs_10A) = 1 \<and>
   length (net_route_features ''10A'' net_dirs_10A) = 1 \<and>
   calculate_route_overlap (fset_of_list [''A'', ''B'', ''C''])
     (fset_of_list [''D'', ''E'', ''F'']) = 0 \<and>
   length (route_features ''5K'' ''5K'' dirs_5K) = 2 \<and>
   length (net_route_features ''5K'' net_dirs_5K) = 2 \<and>
   map fst dirs_5K = [''0'', ''1''] \<and> length dirs_5K \<le> 2 \<and>
   map_of [(''1'', mk_geo [''A''] 1)] ''0'' = None \<and>
   length (route_features ''7'' ''7'' [(''1'', mk_geo [''A''] 1)]) = 1 \<and>
   length (net_route_features ''7'' [(''1'', mk_net_geo [''A''] 1)]) = 1"
proof -
  have j1: "calculate_route_overlap (fset_of_list [''S1'', ''S2'', ''S3'', ''S4''])
     (fset_of_list [''S2'', ''S3'', ''S4'', ''S5'']) = 3 / 5"
    by code_simp
  have j2: "calculate_route_overlap (fset_of_list [''A'', ''B'', ''C''])
     (fset_of_list [''D'', ''E'', ''F'']) = 0"
    by code_simp
  have m1: "map_of dirs_10A ''0'' = Some (mk_geo [''S1'', ''S2'', ''S3'', ''S4''] 4)"
    "map_of dirs_10A ''1'' = Some (mk_geo [''S2'', ''S3'', ''S4'', ''S5''] 4)"
    "map_of net_dirs_10A ''0'' = Some (mk_net_geo [''S1'', ''S2'', ''S3'', ''S4''] 4)"
    "map_of net_dirs_10A ''1'' = Some (mk_net_geo [''S2'', ''S3'', ''S4'', ''S5''] 4)"
    by (simp_all add: dirs_10A_def net_dirs_10A_def)
  have m2: "map_of dirs_5K ''0'' = Some (mk_geo [''A'', ''B'', ''C''] 3)"
    "map_of dirs_5K ''1'' = Some (mk_geo [''D'', ''E'', ''F''] 3)"
    "map_of net_dirs_5K ''0'' = Some (mk_net_geo [''A'', ''B'', ''C''] 3)"
    "map_of net_dirs_5K ''1'' = Some (mk_net_geo [''D'', ''E'', ''F''] 3)"
    by (simp_all add: dirs_5K_def net_dirs_5K_def)
  have ids: "geo_stop_ids (mk_geo xs n) = fset_of_list xs"
    "ng_stop_ids (mk_net_geo xs n) = fset_of_list xs" for xs n
    by (simp_all add: mk_geo_def mk_net_geo_def)
  have len: "length dirs_5K = 2" "length net_dirs_5K = 2"
    by (simp_all add: dirs_5K_def net_dirs_5K_def)
  have a: "length (route_features ''10A'' ''10A'' dirs_10A) = 1 \<and>
           length (net_route_features ''10A'' net_dirs_10A) = 1"
    using merge_or_split_count [where directions = dirs_10A and ndirections = net_dirs_10A
        and rid = "''10A''" and name = "''10A''"] m1 j1
    by (simp add: ids MERGE_THRESHOLD_def)
  have b: "length (route_features ''5K'' ''5K'' dirs_5K) = 2 \<and>
           length (net_route_features ''5K'' net_dirs_5K) = 2"
    using merge_or_split_count [where directions = dirs_5K and ndirections = net_dirs_5K
        and rid = "''5K''" and name = "''5K''"] m2 j2 len
    by (simp add: ids MERGE_THRESHOLD_def)
  have k: "map fst dirs_5K = [''0'', ''1'']" by (simp add: dirs_5K_def)
  have c: "length dirs_5K \<le> 2"
    using merge_or_split_count [where directions = dirs_5K] k by simp
  have n: "map_of [(''1'', mk_geo [''A''] 1)] ''0'' = None" by simp
  have d: "length (route_features ''7'' ''7'' [(''1'', mk_geo [''A''] 1)]) = 1 \<and>
           length (net_route_features ''7'' [(''1'', mk_net_geo [''A''] 1)]) = 1"
    using merge_or_split_count [where directions = "[(''1'', mk_geo [''A''] 1)]"
        and ndirections = "[(''1'', mk_net_geo [''A''] 1)]" and rid = "''7''" and name = "''7''"]
    by simp
  from m1 j1 j2 a b k c n d show ?thesis by simp
qed

section \<open>Order of the output features\<close>

text \<open>
  Claim C9, as the interactive map has it: the list that
  \<open>create_geojson_features\<close> returns is in ascending order of the search labels,
  compared as strings, case-sensitively.
\<close>

theorem interactive_features_sorted:
  "sorted (map f_search_text (create_geojson_features geometries routes)) \<and>
   sorted (map f_search_text (interactive_features stops stop_times trips routes))"
  by (simp add: create_geojson_features_def interactive_features_def)

text \<open>The network map applies no sort: with route B before route A in the feed, the label
  of B comes first.\<close>

theorem network_features_unsorted:
  "map nf_search_key (build_features two_route_stops two_route_stop_times two_route_trips []) =
     [''B (Outbound)'', ''A (Outbound)''] \<and>
   \<not> sorted (map nf_search_key
               (build_features two_route_stops two_route_stop_times two_route_trips []))"
proof -
  have v: "map nf_search_key
             (build_features two_route_stops two_route_stop_times two_route_trips []) =
           [''B (Outbound)'', ''A (Outbound)'']"
    by code_simp
  have "\<not> sorted [''B (Outbound)'', ''A (Outbound)'']" by simp
  with v show ?thesis by simp
qed

section \<open>Trips without coordinates\<close>

lemma map_of_dict_set:
  "map_of (dict_set k v d) k' = (if k' = k then Some v else map_of d k')"
  by (induction d) auto

lemma merge_stops_row:
  "r \<in> set xs \<Longrightarrow> \<exists>g \<in> set (merge_stops xs stops). g_trip_id g = st_trip_id r"
  unfolding merge_stops_def
  by (cases "filter (\<lambda>s. sp_stop_id s = st_stop_id r) stops")
     (force simp: join_stop_def)+

lemma merge_stops_origin:
  assumes "g \<in> set (merge_stops xs stops)"
  shows "\<exists>r \<in> set xs. g_trip_id g = st_trip_id r \<and>
           ((g_stop_lat g = None \<and> g_stop_lon g = None) \<or>
            (\<exists>s \<in> set stops. sp_stop_id s = st_stop_id r \<and>
                g_stop_lat g = sp_stop_lat s \<and> g_stop_lon g = sp_stop_lon s))"
proof -
  from assms obtain r where r: "r \<in> set xs"
    and g: "g \<in> set (case filter (\<lambda>s. sp_stop_id s = st_stop_id r) stops of
          [] \<Rightarrow> [join_stop r None None None]
        | ms \<Rightarrow> map (\<lambda>s. join_stop r (sp_stop_name s) (sp_stop_lat s) (sp_stop_lon s)) ms)"
    unfolding merge_stops_def by auto
  show ?thesis
  proof (cases "filter (\<lambda>s. sp_stop_id s = st_stop_id r) stops")
    case Nil
    with g r show ?thesis by (auto simp: join_stop_def)
  next
    case (Cons m ms)
    with g obtain s where s: "s \<in> set (filter (\<lambda>s. sp_stop_id s = st_stop_id r) stops)"
      and e: "g = join_stop r (sp_stop_name s) (sp_stop_lat s) (sp_stop_lon s)"
      by auto
    then show ?thesis using r by (auto simp: join_stop_def)
  qed
qed

lemma representative_has_stop_time:
  "r \<in> set (get_representative_trips trips stop_times) \<Longrightarrow>
   rp_trip_id r \<in> st_trip_id ` set stop_times"
  using representative_in_enriched [of trips stop_times]
  unfolding set_trips_enriched by auto

lemma set_trip_stops: "set (trip_stops geo tid) = {g \<in> set geo. g_trip_id g = tid}"
  by (auto simp: trip_stops_def)

lemma representative_rows_nonempty:
  assumes "r \<in> set (get_representative_trips trips stop_times)"
  shows "trip_stops (st_geo (get_representative_trips trips stop_times) stop_times stops)
           (rp_trip_id r) \<noteq> []"
proof -
  let ?reps = "get_representative_trips trips stop_times"
  from representative_has_stop_time [OF assms]
  obtain v where v: "v \<in> set stop_times" "st_trip_id v = rp_trip_id r" by auto
  with assms have "v \<in> set (filter (\<lambda>x. st_trip_id x \<in> rp_trip_id ` set ?reps) stop_times)"
    by auto
  from merge_stops_row [OF this, of stops] v(2)
  have "\<exists>g \<in> set (st_geo ?reps stop_times stops). g_trip_id g = rp_trip_id r"
    by (simp add: st_geo_def)
  then have "set (trip_stops (st_geo ?reps stop_times stops) (rp_trip_id r)) \<noteq> {}"
    unfolding set_trip_stops by blast
  then show ?thesis by auto
qed

lemma trip_geometry_None: "trip_geometry rows = None \<longleftrightarrow> rows = []"
  by (simp add: trip_geometry_def split: list.splits)

lemma coords_of_blank:
  "\<forall>g \<in> set rows. g_stop_lat g = None \<or> g_stop_lon g = None \<Longrightarrow> coords_of rows = []"
  unfolding coords_of_def by (induction rows) (auto split: option.splits)

lemma trip_geometry_blank:
  assumes "trip_geometry rows = Some g"
    and "\<forall>x \<in> set rows. g_stop_lat x = None \<or> g_stop_lon x = None"
  shows "geo_coords g = [] \<and> geo_count g = 0"
  using assms coords_of_blank [of rows]
  by (auto simp: trip_geometry_def split: list.splits)

lemma fold_dict_lookup:
  "map_of (foldl (\<lambda>acc row. case f row of None \<Rightarrow> acc
                              | Some g \<Rightarrow> dict_set (key row) g acc) acc rows) k = Some g \<Longrightarrow>
   map_of acc k = Some g \<or> (\<exists>row \<in> set rows. key row = k \<and> f row = Some g)"
proof (induction rows arbitrary: acc)
  case Nil
  then show ?case by simp
next
  case (Cons row rows)
  show ?case
  proof (cases "f row")
    case None
    with Cons.prems Cons.IH [of acc] show ?thesis by auto
  next
    case (Some h)
    with Cons.prems Cons.IH [of "dict_set (key row) h acc"]
    show ?thesis by (auto simp: map_of_dict_set split: if_splits)
  qed
qed

lemma fold_dict_present:
  "row \<in> set rows \<Longrightarrow> f row \<noteq> None \<Longrightarrow>
   map_of (foldl (\<lambda>acc row. case f row of None \<Rightarrow> acc
                              | Some g \<Rightarrow> dict_set (key row) g acc) acc rows) (key row) \<noteq> None"
proof (induction rows arbitrary: acc rule: rev_induct)
  case Nil
  then show ?case by simp
next
  case (snoc x xs)
  show ?case
  proof (cases "row = x")
    case True
    with snoc.prems show ?thesis by (auto simp: map_of_dict_set)
  next
    case False
    with snoc.prems have "row \<in> set xs" by simp
    from snoc.IH [OF this snoc.prems(2), of acc] show ?thesis
      by (auto simp: map_of_dict_set split: option.splits)
  qed
qed

lemma lookup2_step:
  "lookup2 (dict_set a (dict_set b v (get_default d a [])) d) a' b' =
     (if a' = a \<and> b' = b then Some v else lookup2 d a' b')"
  by (auto simp: lookup2_def map_of_dict_set get_default_def split: option.splits)

lemma lookup2_group_gen:
  "map_of geometries (rid, dir) = Some g \<Longrightarrow> distinct (map fst geometries) \<Longrightarrow>
   lookup2 (foldl (\<lambda>route_directions ((route_id, dir_id), data).
              dict_set route_id (dict_set dir_id data (get_default route_directions route_id []))
                route_directions) acc geometries) rid dir = Some g"
proof (induction geometries arbitrary: acc rule: rev_induct)
  case Nil
  then show ?case by simp
next
  case (snoc x xs)
  obtain r d h where x: "x = ((r, d), h)" by (metis prod.exhaust)
  show ?case
  proof (cases "(r, d) = (rid, dir)")
    case True
    with snoc.prems x have "h = g"
      by (auto simp: map_of_eq_None_iff image_iff split: option.splits if_splits)
         (metis fst_conv map_of_SomeD)
    with True x show ?thesis by (simp add: lookup2_step)
  next
    case False
    with snoc.prems x have "map_of xs (rid, dir) = Some g"
      by (auto split: if_splits simp: map_add_Some_iff)
    moreover have "distinct (map fst xs)" using snoc.prems by simp
    ultimately have "lookup2 (foldl (\<lambda>route_directions ((route_id, dir_id), data).
              dict_set route_id (dict_set dir_id data (get_default route_directions route_id []))
                route_directions) acc xs) rid dir = Some g"
      by (rule snoc.IH)
    with False x show ?thesis by (auto simp: lookup2_step)
  qed
qed

lemma lookup2_group:
  "map_of geometries (rid, dir) = Some g \<Longrightarrow> distinct (map fst geometries) \<Longrightarrow>
   lookup2 (group_directions geometries) rid dir = Some g"
  unfolding group_directions_def by (rule lookup2_group_gen)

lemma dict_set_keys: "set (map fst (dict_set k v d)) = insert k (set (map fst d))"
  by (induction d) auto

lemma dict_set_distinct: "distinct (map fst d) \<Longrightarrow> distinct (map fst (dict_set k v d))"
  by (induction d) (auto simp: dict_set_keys simp flip: set_map)

lemma fold_dict_distinct:
  "distinct (map fst acc) \<Longrightarrow>
   distinct (map fst (foldl (\<lambda>acc row. case f row of None \<Rightarrow> acc
                              | Some g \<Rightarrow> dict_set (key row) g acc) acc rows))"
  by (induction rows arbitrary: acc) (auto simp: dict_set_distinct split: option.splits)

lemma route_features_nonempty: "directions \<noteq> [] \<Longrightarrow> route_features rid name directions \<noteq> []"
  by (auto simp: route_features_def split: option.splits)

lemma route_features_in_output:
  "(rid, directions) \<in> set (group_directions geometries) \<Longrightarrow>
   set (route_features rid (get_default (route_names routes) rid rid) directions)
     \<subseteq> set (create_geojson_features geometries routes)"
  unfolding create_geojson_features_def by force

lemma blank_trip_geometry:
  assumes fr: "trip_geometry (trip_stops (st_geo reps stop_times stops) tid) = Some g"
    and h: "blank_trip stop_times stops tid"
  shows "geo_coords g = [] \<and> geo_count g = 0"
proof (rule trip_geometry_blank [OF fr], rule ballI)
  fix x assume "x \<in> set (trip_stops (st_geo reps stop_times stops) tid)"
  then have x: "x \<in> set (st_geo reps stop_times stops)" "g_trip_id x = tid"
    by (auto simp: set_trip_stops)
  from merge_stops_origin [OF x(1) [unfolded st_geo_def]]
  obtain v where v: "v \<in> set stop_times" "g_trip_id x = st_trip_id v"
    and c: "(g_stop_lat x = None \<and> g_stop_lon x = None) \<or>
          (\<exists>s \<in> set stops. sp_stop_id s = st_stop_id v \<and>
              g_stop_lat x = sp_stop_lat s \<and> g_stop_lon x = sp_stop_lon s)"
    by auto
  from c show "g_stop_lat x = None \<or> g_stop_lon x = None"
  proof
    assume "g_stop_lat x = None \<and> g_stop_lon x = None"
    then show ?thesis by simp
  next
    assume "\<exists>s \<in> set stops. sp_stop_id s = st_stop_id v \<and>
              g_stop_lat x = sp_stop_lat s \<and> g_stop_lon x = sp_stop_lon s"
    then obtain s where s: "s \<in> set stops" "sp_stop_id s = st_stop_id v"
      "g_stop_lat x = sp_stop_lat s" "g_stop_lon x = sp_stop_lon s" by auto
    have "st_trip_id v = tid" using v(2) x(2) by simp
    with h [unfolded blank_trip_def, rule_format, of v s] v(1) s(1,2)
    have "sp_stop_lat s = None \<or> sp_stop_lon s = None" by simp
    with s(3,4) show ?thesis by simp
  qed
qed

lemma set_dict_set: "set (dict_set k v d) \<subseteq> insert (k, v) (set d)"
  by (induction d) auto

text \<open>Every entry of the grouped dict comes from an entry of the flat one.\<close>

lemma group_fold_origin:
  assumes "\<forall>(rid, dirs) \<in> set acc. \<forall>(d, h) \<in> set dirs. ((rid, d), h) \<in> T"
    and "set xs \<subseteq> T"
  shows "\<forall>(rid, dirs) \<in> set (foldl (\<lambda>route_directions ((route_id, dir_id), data).
              dict_set route_id (dict_set dir_id data (get_default route_directions route_id []))
                route_directions) acc xs). \<forall>(d, h) \<in> set dirs. ((rid, d), h) \<in> T"
  using assms
proof (induction xs arbitrary: acc)
  case Nil
  then show ?case by simp
next
  case (Cons x xs)
  obtain r d h where x: "x = ((r, d), h)" by (metis prod.exhaust)
  let ?old = "get_default acc r []"
  let ?acc = "dict_set r (dict_set d h ?old) acc"
  have old: "\<forall>(d', h') \<in> set ?old. ((r, d'), h') \<in> T"
  proof (cases "map_of acc r")
    case None
    then show ?thesis by (simp add: get_default_def)
  next
    case (Some dirs)
    then have "(r, dirs) \<in> set acc" by (rule map_of_SomeD)
    with Cons.prems(1) Some show ?thesis by (auto simp: get_default_def)
  qed
  have xin: "((r, d), h) \<in> T" using Cons.prems(2) x by simp
  have inner: "\<forall>(d', h') \<in> set (dict_set d h ?old). ((r, d'), h') \<in> T"
    using set_dict_set [of d h ?old] old xin by auto
  have "\<forall>(rid, dirs) \<in> set ?acc. \<forall>(d', h') \<in> set dirs. ((rid, d'), h') \<in> T"
  proof (clarify)
    fix rid dirs d' h'
    assume m: "(rid, dirs) \<in> set ?acc" and e: "(d', h') \<in> set dirs"
    from m set_dict_set [of r "dict_set d h ?old" acc]
    have "(rid, dirs) = (r, dict_set d h ?old) \<or> (rid, dirs) \<in> set acc" by blast
    then show "((rid, d'), h') \<in> T"
    proof
      assume "(rid, dirs) = (r, dict_set d h ?old)"
      with inner e show ?thesis by auto
    next
      assume "(rid, dirs) \<in> set acc"
      with Cons.prems(1) e show ?thesis by auto
    qed
  qed
  moreover have "set xs \<subseteq> T" using Cons.prems(2) by simp
  ultimately show ?case
    using Cons.IH [of ?acc] by (simp add: x)
qed

lemma group_directions_origin:
  "(rid, dirs) \<in> set (group_directions geometries) \<Longrightarrow> (d, h) \<in> set dirs \<Longrightarrow>
   ((rid, d), h) \<in> set geometries"
  using group_fold_origin [of "[]" "set geometries" geometries]
  unfolding group_directions_def by auto

lemma geometry_origin:
  assumes "(k, h) \<in> set (build_route_geometries reps stop_times stops)"
  shows "\<exists>row \<in> set reps. (rp_route_id row, rp_direction_id row) = k \<and>
           trip_geometry (trip_stops (st_geo reps stop_times stops) (rp_trip_id row)) = Some h"
proof -
  let ?f = "\<lambda>row. trip_geometry (trip_stops (st_geo reps stop_times stops) (rp_trip_id row))"
  let ?key = "\<lambda>row. (rp_route_id row, rp_direction_id row)"
  have geoms: "build_route_geometries reps stop_times stops =
      foldl (\<lambda>acc row. case ?f row of None \<Rightarrow> acc
                        | Some g \<Rightarrow> dict_set (?key row) g acc) [] reps"
    by (simp add: build_route_geometries_def)
  have "distinct (map fst (build_route_geometries reps stop_times stops))"
    unfolding geoms by (rule fold_dict_distinct) simp
  with assms have "map_of (build_route_geometries reps stop_times stops) k = Some h"
    by simp
  from fold_dict_lookup [where f = ?f and key = ?key and acc = "[]" and rows = reps
      and k = k and g = h, folded geoms, OF this]
  show ?thesis by auto
qed

lemma merge_choice_member:
  assumes "merge_choice directions = Some c"
  shows "\<exists>d. (d, c) \<in> set directions"
proof -
  from assms obtain d0 d1 where m: "map_of directions ''0'' = Some d0"
    "map_of directions ''1'' = Some d1" and c: "c = d0 \<or> c = d1"
    by (auto simp: merge_choice_def Let_def split: option.splits if_splits)
  from m have "(''0'', d0) \<in> set directions" "(''1'', d1) \<in> set directions"
    by (auto dest: map_of_SomeD)
  with c show ?thesis by auto
qed

lemma route_feature_geometry:
  assumes "f \<in> set (route_features rid name directions)"
  shows "\<exists>d h. (d, h) \<in> set directions \<and> f_coordinates f = geo_coords h \<and>
           f_stops_count f = geo_count h"
proof (cases "merge_choice directions")
  case None
  with assms obtain d h where "(d, h) \<in> set directions" "f = one_way_feature rid name d h"
    by (auto simp: route_features_def)
  then have "(d, h) \<in> set directions \<and> f_coordinates f = geo_coords h \<and>
           f_stops_count f = geo_count h"
    by (simp add: one_way_feature_def Let_def)
  then show ?thesis by blast
next
  case (Some c)
  with assms have "f = bidirectional_feature rid name c"
    by (simp add: route_features_def)
  then have "f_coordinates f = geo_coords c \<and> f_stops_count f = geo_count c"
    by (simp add: bidirectional_feature_def)
  with merge_choice_member [OF Some] show ?thesis by blast
qed

lemma one_way_emitted:
  "merge_choice directions = None \<Longrightarrow> map_of directions d = Some g \<Longrightarrow>
   one_way_feature rid name d g \<in> set (route_features rid name directions)"
  by (auto simp: route_features_def dest!: map_of_SomeD intro!: rev_image_eqI)

text \<open>
  Claim C8, as the code has it. Every representative trip has at least one stop-visit row,
  so it always gets a geometry, stored under its (route, direction) key and grouped under
  its route; the route then emits at least one feature, all of them part of the final
  list. When every visit of the trip lacks a parseable coordinate the geometry has no
  coordinates and count 0, and it is kept all the same: if the route's directions are not
  merged, the trip's own one-way feature is in the final list with an empty coordinate list
  and stop count 0; if they are merged, the route's single feature carries the geometry of
  the direction with the larger count, direction '0' on a tie. When all representative
  trips of the route lack parseable coordinates, every feature of the route has an empty
  coordinate list and stop count 0.
\<close>

theorem blank_geometry_kept:
  assumes r: "r \<in> set (get_representative_trips trips stop_times)"
  shows "\<exists>g directions.
           map_of (build_route_geometries (get_representative_trips trips stop_times)
                     stop_times stops) (rp_route_id r, rp_direction_id r) = Some g \<and>
           (rp_route_id r, directions) \<in>
              set (group_directions (build_route_geometries
                     (get_representative_trips trips stop_times) stop_times stops)) \<and>
           map_of directions (rp_direction_id r) = Some g \<and>
           route_features (rp_route_id r)
              (get_default (route_names routes) (rp_route_id r) (rp_route_id r)) directions \<noteq> [] \<and>
           set (route_features (rp_route_id r)
              (get_default (route_names routes) (rp_route_id r) (rp_route_id r)) directions)
             \<subseteq> set (interactive_features stops stop_times trips routes) \<and>
           (\<forall>c. merge_choice directions = Some c \<longrightarrow>
              route_features (rp_route_id r)
                (get_default (route_names routes) (rp_route_id r) (rp_route_id r)) directions =
                [bidirectional_feature (rp_route_id r)
                   (get_default (route_names routes) (rp_route_id r) (rp_route_id r)) c] \<and>
              f_coordinates (bidirectional_feature (rp_route_id r)
                   (get_default (route_names routes) (rp_route_id r) (rp_route_id r)) c) =
                geo_coords c \<and>
              (\<exists>d0 d1. map_of directions ''0'' = Some d0 \<and> map_of directions ''1'' = Some d1 \<and>
                 c = (if geo_count d0 \<ge> geo_count d1 then d0 else d1))) \<and>
           (blank_trip stop_times stops (rp_trip_id r) \<longrightarrow>
              geo_coords g = [] \<and> geo_count g = 0 \<and>
              (merge_choice directions = None \<longrightarrow>
                 one_way_feature (rp_route_id r)
                   (get_default (route_names routes) (rp_route_id r) (rp_route_id r))
                   (rp_direction_id r) g
                   \<in> set (interactive_features stops stop_times trips routes) \<and>
                 f_coordinates (one_way_feature (rp_route_id r)
                   (get_default (route_names routes) (rp_route_id r) (rp_route_id r))
                   (rp_direction_id r) g) = [] \<and>
                 f_stops_count (one_way_feature (rp_route_id r)
                   (get_default (route_names routes) (rp_route_id r) (rp_route_id r))
                   (rp_direction_id r) g) = 0)) \<and>
           ((\<forall>r' \<in> set (get_representative_trips trips stop_times).
               rp_route_id r' = rp_route_id r \<longrightarrow> blank_trip stop_times stops (rp_trip_id r')) \<longrightarrow>
            (\<forall>f \<in> set (route_features (rp_route_id r)
                (get_default (route_names routes) (rp_route_id r) (rp_route_id r)) directions).
               f_coordinates f = [] \<and> f_stops_count f = 0))"
proof -
  let ?reps = "get_representative_trips trips stop_times"
  let ?geo = "st_geo ?reps stop_times stops"
  let ?f = "\<lambda>row. trip_geometry (trip_stops ?geo (rp_trip_id row))"
  let ?key = "\<lambda>row. (rp_route_id row, rp_direction_id row)"
  let ?geoms = "build_route_geometries ?reps stop_times stops"
  let ?rid = "rp_route_id r"
  let ?name = "get_default (route_names routes) ?rid ?rid"
  have geoms: "?geoms = foldl (\<lambda>acc row. case ?f row of None \<Rightarrow> acc
                              | Some g \<Rightarrow> dict_set (?key row) g acc) [] ?reps"
    by (simp add: build_route_geometries_def)
  have "?f r \<noteq> None"
    using representative_rows_nonempty [OF r] by (simp add: trip_geometry_None)
  from fold_dict_present [where f = ?f and key = ?key and acc = "[]", OF r this]
  obtain g where g: "map_of ?geoms (?key r) = Some g"
    unfolding geoms by auto
  from fold_dict_lookup [where f = ?f and key = ?key and acc = "[]" and rows = ?reps
      and k = "?key r" and g = g] g
  obtain row where row: "row \<in> set ?reps" "?key row = ?key r" "?f row = Some g"
    unfolding geoms by auto
  have "distinct (map ?key ?reps)"
    unfolding get_representative_trips_def drop_duplicates_def by (rule ddf_distinct)
  then have "inj_on ?key (set ?reps)" by (simp add: distinct_map)
  with row r have "row = r" by (auto dest: inj_onD)
  with row have fr: "?f r = Some g" by simp
  have dist: "distinct (map fst ?geoms)"
    unfolding geoms by (rule fold_dict_distinct) simp
  from lookup2_group [OF g dist]
  obtain directions where d: "map_of (group_directions ?geoms) ?rid = Some directions"
    and dg: "map_of directions (rp_direction_id r) = Some g"
    by (auto simp: lookup2_def split: option.splits)
  from d have mem: "(?rid, directions) \<in> set (group_directions ?geoms)"
    by (rule map_of_SomeD)
  from dg have ne: "directions \<noteq> []" by auto
  have out: "set (route_features ?rid ?name directions)
          \<subseteq> set (interactive_features stops stop_times trips routes)"
    unfolding interactive_features_def by (rule route_features_in_output [OF mem])
  have merged: "route_features ?rid ?name directions = [bidirectional_feature ?rid ?name c] \<and>
              f_coordinates (bidirectional_feature ?rid ?name c) = geo_coords c \<and>
              (\<exists>d0 d1. map_of directions ''0'' = Some d0 \<and> map_of directions ''1'' = Some d1 \<and>
                 c = (if geo_count d0 \<ge> geo_count d1 then d0 else d1))"
    if "merge_choice directions = Some c" for c
    using that
    by (auto simp: route_features_def bidirectional_feature_def merge_choice_def Let_def
        split: option.splits if_splits)
  have blank: "geo_coords g = [] \<and> geo_count g = 0 \<and>
              (merge_choice directions = None \<longrightarrow>
                 one_way_feature ?rid ?name (rp_direction_id r) g
                   \<in> set (interactive_features stops stop_times trips routes) \<and>
                 f_coordinates (one_way_feature ?rid ?name (rp_direction_id r) g) = [] \<and>
                 f_stops_count (one_way_feature ?rid ?name (rp_direction_id r) g) = 0)"
    if h: "blank_trip stop_times stops (rp_trip_id r)"
  proof -
    from blank_trip_geometry [OF fr h] have e: "geo_coords g = []" "geo_count g = 0"
      by simp_all
    have "one_way_feature ?rid ?name (rp_direction_id r) g
            \<in> set (interactive_features stops stop_times trips routes)"
      if "merge_choice directions = None"
      using one_way_emitted [OF that dg, of ?rid ?name] out by blast
    with e show ?thesis by (simp add: one_way_feature_def Let_def)
  qed
  have all_blank: "f_coordinates f = [] \<and> f_stops_count f = 0"
    if h: "\<forall>r' \<in> set ?reps. rp_route_id r' = ?rid \<longrightarrow> blank_trip stop_times stops (rp_trip_id r')"
      and f: "f \<in> set (route_features ?rid ?name directions)" for f
  proof -
    from route_feature_geometry [OF f]
    obtain dd hh where dh: "(dd, hh) \<in> set directions" and c: "f_coordinates f = geo_coords hh"
      "f_stops_count f = geo_count hh" by blast
    from group_directions_origin [OF mem dh]
    have "((?rid, dd), hh) \<in> set ?geoms" .
    from geometry_origin [OF this]
    obtain r' where r': "r' \<in> set ?reps" "rp_route_id r' = ?rid" "?f r' = Some hh"
      by auto
    from h r'(1,2) have "blank_trip stop_times stops (rp_trip_id r')" by blast
    from blank_trip_geometry [OF r'(3) this] c show ?thesis by simp
  qed
  show ?thesis
  proof (rule exI [of _ g], rule exI [of _ directions], intro conjI)
    show "map_of ?geoms (?rid, rp_direction_id r) = Some g" by (rule g)
    show "(?rid, directions) \<in> set (group_directions ?geoms)" by (rule mem)
    show "map_of directions (rp_direction_id r) = Some g" by (rule dg)
    show "route_features ?rid ?name directions \<noteq> []"
      by (rule route_features_nonempty [OF ne])
    show "set (route_features ?rid ?name directions)
          \<subseteq> set (interactive_features stops stop_times trips routes)" by (rule out)
    show "\<forall>c. merge_choice directions = Some c \<longrightarrow>
              route_features ?rid ?name directions = [bidirectional_feature ?rid ?name c] \<and>
              f_coordinates (bidirectional_feature ?rid ?name c) = geo_coords c \<and>
              (\<exists>d0 d1. map_of directions ''0'' = Some d0 \<and> map_of directions ''1'' = Some d1 \<and>
                 c = (if geo_count d0 \<ge> geo_count d1 then d0 else d1))"
      using merged by blast
    show "blank_trip stop_times stops (rp_trip_id r) \<longrightarrow>
              geo_coords g = [] \<and> geo_count g = 0 \<and>
              (merge_choice directions = None \<longrightarrow>
                 one_way_feature ?rid ?name (rp_direction_id r) g
                   \<in> set (interactive_features stops stop_times trips routes) \<and>
                 f_coordinates (one_way_feature ?rid ?name (rp_direction_id r) g) = [] \<and>
                 f_stops_count (one_way_feature ?rid ?name (rp_direction_id r) g) = 0)"
      using blank by blast
    show "(\<forall>r' \<in> set ?reps. rp_route_id r' = ?rid \<longrightarrow> blank_trip stop_times stops (rp_trip_id r')) \<longrightarrow>
            (\<forall>f \<in> set (route_features ?rid ?name directions).
               f_coordinates f = [] \<and> f_stops_count f = 0)"
      using all_blank by blast
  qed
qed

theorem blank_geometry_kept_witness:
  "\<lparr>rp_trip_id = ''T1'', rp_route_id = ''R'', rp_direction_id = ''0'', rp_stop_count = 2\<rparr>
     \<in> set (get_representative_trips blank_trips blank_stop_times) \<and>
   map sp_stop_lat blank_stops = [None] \<and>
   blank_trip blank_stop_times blank_stops ''T1'' \<and>
   (\<exists>g. map_of (build_route_geometries (get_representative_trips blank_trips blank_stop_times)
               blank_stop_times blank_stops) (''R'', ''0'') = Some g \<and>
        geo_coords g = [] \<and> geo_count g = 0 \<and>
        one_way_feature ''R'' ''R'' ''0'' g
          \<in> set (interactive_features blank_stops blank_stop_times blank_trips []) \<and>
        f_coordinates (one_way_feature ''R'' ''R'' ''0'' g) = [] \<and>
        f_stops_count (one_way_feature ''R'' ''R'' ''0'' g) = 0)"
proof -
  let ?r = "\<lparr>rp_trip_id = ''T1'', rp_route_id = ''R'', rp_direction_id = ''0'',
             rp_stop_count = 2\<rparr>"
  let ?reps = "get_representative_trips blank_trips blank_stop_times"
  let ?geoms = "build_route_geometries ?reps blank_stop_times blank_stops"
  have reps: "?reps = [?r]"
    by code_simp
  then have r: "?r \<in> set ?reps"
    by simp
  have l: "map sp_stop_lat blank_stops = [None]"
    by (simp add: blank_stops_def mk_stop_def)
  have b: "blank_trip blank_stop_times blank_stops tid" for tid
    by (simp add: blank_trip_def blank_stops_def mk_stop_def)
  have ks: "map (\<lambda>(rid, dirs). (rid, map fst dirs)) (group_directions ?geoms) = [(''R'', [''0''])]"
    by code_simp
  have nm: "get_default (route_names []) ''R'' ''R'' = ''R''"
    by (simp add: get_default_def route_names_def)
  have sel: "rp_route_id ?r = ''R''" "rp_direction_id ?r = ''0''" "rp_trip_id ?r = ''T1''"
    by simp_all
  from blank_geometry_kept [OF r, of blank_stops "[]", unfolded sel nm]
  obtain g directions where g: "map_of ?geoms (''R'', ''0'') = Some g"
    and mem: "(''R'', directions) \<in> set (group_directions ?geoms)"
    and dg: "map_of directions ''0'' = Some g"
    and bl: "blank_trip blank_stop_times blank_stops ''T1'' \<longrightarrow>
              geo_coords g = [] \<and> geo_count g = 0 \<and>
              (merge_choice directions = None \<longrightarrow>
                 one_way_feature ''R'' ''R'' ''0'' g
                   \<in> set (interactive_features blank_stops blank_stop_times blank_trips []) \<and>
                 f_coordinates (one_way_feature ''R'' ''R'' ''0'' g) = [] \<and>
                 f_stops_count (one_way_feature ''R'' ''R'' ''0'' g) = 0)"
    and ab: "(\<forall>r' \<in> set ?reps. rp_route_id r' = ''R'' \<longrightarrow>
                blank_trip blank_stop_times blank_stops (rp_trip_id r')) \<longrightarrow>
             (\<forall>f \<in> set (route_features ''R'' ''R'' directions).
                f_coordinates f = [] \<and> f_stops_count f = 0)"
    by (elim exE conjE) (rule that, assumption+)
  from mem have "(''R'', map fst directions)
      \<in> set (map (\<lambda>(rid, dirs). (rid, map fst dirs)) (group_directions ?geoms))"
    by force
  then have "map fst directions = [''0'']" unfolding ks by simp
  then have "map_of directions ''1'' = None"
    by (simp add: map_of_eq_None_iff flip: set_map)
  then have mc: "merge_choice directions = None"
    by (simp add: merge_choice_def split: option.splits)
  from one_way_emitted [OF mc dg, of "''R''" "''R''"] ab b
  have sc: "f_stops_count (one_way_feature ''R'' ''R'' ''0'' g) = 0" by blast
  from bl b [of "''T1''"] mc g
  have "map_of ?geoms (''R'', ''0'') = Some g \<and>
        geo_coords g = [] \<and> geo_count g = 0 \<and>
        one_way_feature ''R'' ''R'' ''0'' g
          \<in> set (interactive_features blank_stops blank_stop_times blank_trips []) \<and>
        f_coordinates (one_way_feature ''R'' ''R'' ''0'' g) = [] \<and>
        f_stops_count (one_way_feature ''R'' ''R'' ''0'' g) = 0"
    using sc by simp
  then have "\<exists>g. map_of ?geoms (''R'', ''0'') = Some g \<and>
        geo_coords g = [] \<and> geo_count g = 0 \<and>
        one_way_feature ''R'' ''R'' ''0'' g
          \<in> set (interactive_features blank_stops blank_stop_times blank_trips []) \<and>
        f_coordinates (one_way_feature ''R'' ''R'' ''0'' g) = [] \<and>
        f_stops_count (one_way_feature ''R'' ''R'' ''0'' g) = 0"
    by (rule exI)
  with r l b [of "''T1''"] show ?thesis by simp
qed

text \<open>The feed whose only stop has no coordinates still yields a feature for its route,
  with an empty coordinate list.\<close>

theorem blank_route_emitted:
  "map sp_stop_lat blank_stops = [None] \<and>
   map sp_stop_lon blank_stops = [None] \<and>
   map f_id (interactive_features blank_stops blank_stop_times blank_trips []) = [''R_0''] \<and>
   map f_coordinates (interactive_features blank_stops blank_stop_times blank_trips []) = [[]] \<and>
   interactive_features blank_stops blank_stop_times blank_trips [] \<noteq> []"
proof -
  have a: "map sp_stop_lat blank_stops = [None]" "map sp_stop_lon blank_stops = [None]"
    by (simp_all add: blank_stops_def mk_stop_def)
  have b: "map f_id (interactive_features blank_stops blank_stop_times blank_trips []) = [''R_0'']"
    by code_simp
  have c: "map f_coordinates (interactive_features blank_stops blank_stop_times blank_trips []) = [[]]"
    by code_simp
  from b have "interactive_features blank_stops blank_stop_times blank_trips [] \<noteq> []"
    by auto
  with a b c show ?thesis by blast
qed

section \<open>The planner's representative trip\<close>

lemma map_of_fold_dict_set:
  "map_of (foldl (\<lambda>d row. dict_set (k row) (v row) d) acc rows) x =
     (case map_of (rev (map (\<lambda>row. (k row, v row)) rows)) x of
        None \<Rightarrow> map_of acc x
      | Some y \<Rightarrow> Some y)"
  by (induction rows arbitrary: acc rule: rev_induct) (auto simp: map_of_dict_set)

lemma map_of_trip_to_route:
  assumes "distinct (map tr_trip_id trips)"
  shows "map_of (trip_to_route trips) tid = Some rid \<longleftrightarrow>
         (\<exists>t \<in> set trips. tr_trip_id t = tid \<and> tr_route_id t = rid)"
proof -
  let ?ps = "map (\<lambda>row. (tr_trip_id row, tr_route_id row)) trips"
  have d: "distinct (map fst (rev ?ps))"
    using assms by (simp add: comp_def distinct_rev flip: rev_map)
  have "map_of (trip_to_route trips) tid = map_of (rev ?ps) tid"
    unfolding trip_to_route_def map_of_fold_dict_set by (simp split: option.splits)
  also have "\<dots> = Some rid \<longleftrightarrow> (tid, rid) \<in> set (rev ?ps)"
    using d by (rule map_of_eq_Some_iff)
  finally show ?thesis by auto
qed

lemma trip_counts_keys_sorted:
  "sorted (map fst (trip_counts stop_times)) \<and> distinct (map fst (trip_counts stop_times))"
  by (simp add: trip_counts_def comp_def)

lemma set_trip_counts:
  "set (trip_counts stop_times) =
     {(tid, visit_count stop_times tid) | tid. tid \<in> st_trip_id ` set stop_times}"
  by (auto simp: trip_counts_def)

lemma visit_count_pos: "tid \<in> st_trip_id ` set stop_times \<Longrightarrow> 0 < visit_count stop_times tid"
  by (auto simp: visit_count_def filter_empty_conv)

text \<open>What the loop has stored for a route after a prefix of the sorted counts.\<close>

lemma rep_fold_invariant:
  assumes "sorted (map fst cs)" and "distinct (map fst cs)"
  shows "(case map_of (foldl (rep_step t2r) [] cs) rid of
            None \<Rightarrow> rid = [] \<or> (\<forall>(t, c) \<in> set cs. map_of t2r t \<noteq> Some rid)
          | Some (tid, cnt) \<Rightarrow>
              rid \<noteq> [] \<and> (tid, cnt) \<in> set cs \<and> map_of t2r tid = Some rid \<and>
              (\<forall>(t, c) \<in> set cs. map_of t2r t = Some rid \<longrightarrow>
                  c \<le> cnt \<and> (c = cnt \<longrightarrow> tid \<le> t)))"
  using assms
proof (induction cs rule: rev_induct)
  case Nil
  then show ?case by simp
next
  case (snoc p cs)
  obtain t c where p: "p = (t, c)" by (cases p)
  have srt: "sorted (map fst cs)" and dst: "distinct (map fst cs)"
    using snoc.prems by (auto simp: sorted_append)
  have below: "\<forall>(t', c') \<in> set cs. t' < t"
  proof (clarify)
    fix t' c' assume m: "(t', c') \<in> set cs"
    then have i: "t' \<in> set (map fst cs)" by force
    with snoc.prems(1) p have "t' \<le> t" by (auto simp: sorted_append)
    moreover from snoc.prems(2) p i have "t' \<noteq> t" by auto
    ultimately show "t' < t" by simp
  qed
  let ?acc = "foldl (rep_step t2r) [] cs"
  note IH = snoc.IH [OF srt dst]
  show ?case
  proof (cases "map_of t2r t = Some rid \<and> rid \<noteq> []")
    case False
    then have same: "map_of (rep_step t2r ?acc p) rid = map_of ?acc rid"
      by (auto simp: rep_step_def p map_of_dict_set split: option.splits)
    show ?thesis
      using IH False unfolding foldl_append foldl.simps same
      by (auto simp: p split: option.splits)
  next
    case True
    show ?thesis
    proof (cases "map_of ?acc rid")
      case None
      then have new: "map_of (rep_step t2r ?acc p) rid = Some (t, c)"
        using True by (simp add: rep_step_def p map_of_dict_set)
      show ?thesis
        using IH None True unfolding foldl_append foldl.simps new
        by (auto simp: p)
    next
      case (Some b)
      obtain bt bc where b: "b = (bt, bc)" by (cases b)
      from IH Some b have inv: "(bt, bc) \<in> set cs" "map_of t2r bt = Some rid"
        "\<forall>(t', c') \<in> set cs. map_of t2r t' = Some rid \<longrightarrow> c' \<le> bc \<and> (c' = bc \<longrightarrow> bt \<le> t')"
        by auto
      from below inv(1) have lt: "bt < t" by auto
      show ?thesis
      proof (cases "c > bc")
        case True
        then have new: "map_of (rep_step t2r ?acc p) rid = Some (t, c)"
          using \<open>map_of t2r t = Some rid \<and> rid \<noteq> []\<close> Some b
          by (simp add: rep_step_def p map_of_dict_set)
        show ?thesis
          using inv True \<open>map_of t2r t = Some rid \<and> rid \<noteq> []\<close>
          unfolding foldl_append foldl.simps new
          by (fastforce simp: p)
      next
        case False
        then have old: "map_of (rep_step t2r ?acc p) rid = Some (bt, bc)"
          using \<open>map_of t2r t = Some rid \<and> rid \<noteq> []\<close> Some b
          by (simp add: rep_step_def p)
        show ?thesis
          using inv False lt \<open>map_of t2r t = Some rid \<and> rid \<noteq> []\<close>
          unfolding foldl_append foldl.simps old
          by (fastforce simp: p)
      qed
    qed
  qed
qed

lemma ddf_complete:
  "y \<in> set xs \<Longrightarrow> key y \<notin> set seen \<Longrightarrow>
   \<exists>r \<in> set (drop_duplicates_from seen key xs). key r = key y"
proof (induction xs arbitrary: seen)
  case Nil
  then show ?case by simp
next
  case (Cons x xs)
  show ?case
  proof (cases "key x = key y")
    case True
    with Cons.prems(2) show ?thesis by auto
  next
    case False
    with Cons.prems have y: "y \<in> set xs" by auto
    show ?thesis
    proof (cases "key x \<in> set seen")
      case True
      with Cons.IH [OF y Cons.prems(2)] show ?thesis by simp
    next
      case no: False
      from False Cons.prems(2) have "key y \<notin> set (key x # seen)" by auto
      from Cons.IH [OF y this] no show ?thesis by auto
    qed
  qed
qed

lemma representative_exists:
  assumes "t \<in> set trips" and "tr_trip_id t \<in> st_trip_id ` set stop_times"
  shows "\<exists>r \<in> set (get_representative_trips trips stop_times).
           rp_route_id r = tr_route_id t \<and> rp_direction_id r = fill_direction (tr_direction_id t)"
proof -
  define y where "y = \<lparr>rp_trip_id = tr_trip_id t, rp_route_id = tr_route_id t,
       rp_direction_id = fill_direction (tr_direction_id t),
       rp_stop_count = visit_count stop_times (tr_trip_id t)\<rparr>"
  have "y \<in> set (trips_enriched trips stop_times)"
    unfolding set_trips_enriched y_def using assms by blast
  then have "y \<in> set (sort_values_desc rp_stop_count (trips_enriched trips stop_times))"
    by (simp add: set_sort_values_desc)
  from ddf_complete [OF this, of "\<lambda>r. (rp_route_id r, rp_direction_id r)" "[]"]
  show ?thesis
    unfolding get_representative_trips_def drop_duplicates_def by (auto simp: y_def)
qed

lemma map_of_map_values:
  "map_of (map (\<lambda>(k, v). (k, f v)) xs) x = map_option f (map_of xs x)"
  by (induction xs) auto

lemma map_of_route_stops:
  "map_of (route_stops trips stop_times) rid =
     map_option (\<lambda>(tid, cnt). map st_stop_id (trip_st stop_times tid))
       (map_of (route_rep_trips trips stop_times) rid)"
proof -
  have "route_stops trips stop_times =
        map (\<lambda>(k, v). (k, (\<lambda>(tid, cnt). map st_stop_id (trip_st stop_times tid)) v))
          (route_rep_trips trips stop_times)"
    unfolding route_stops_def by (rule map_cong) auto
  then show ?thesis by (simp only: map_of_map_values)
qed

text \<open>
  Claim C6, as the code has it. The planner keeps one trip per route id, whatever the
  direction: a trip of that route with the greatest number of stop visits, the smallest trip
  id among equals; the route's sequence is the stop ids of that trip by ascending sequence
  number. When no other trip of the route has as many visits, this is the trip that the
  consolidation engine selects for the trip's own direction. Trip ids are unique in the
  trips table.
\<close>

theorem planner_representative_trip:
  assumes ids: "distinct (map tr_trip_id trips)"
    and sel: "map_of (route_rep_trips trips stop_times) rid = Some (tid, cnt)"
  shows "map_of (route_stops trips stop_times) rid =
           Some (map st_stop_id (trip_st stop_times tid)) \<and>
         cnt = visit_count stop_times tid \<and> 0 < cnt \<and>
         (\<exists>t \<in> set trips. tr_trip_id t = tid \<and> tr_route_id t = rid) \<and>
         (\<forall>t \<in> set trips. tr_route_id t = rid \<longrightarrow>
            visit_count stop_times (tr_trip_id t) \<le> cnt \<and>
            (visit_count stop_times (tr_trip_id t) = cnt \<longrightarrow> tid \<le> tr_trip_id t)) \<and>
         ((\<forall>t \<in> set trips. tr_route_id t = rid \<and> tr_trip_id t \<noteq> tid \<longrightarrow>
             visit_count stop_times (tr_trip_id t) < cnt) \<longrightarrow>
          (\<exists>r \<in> set (get_representative_trips trips stop_times).
             rp_route_id r = rid \<and> rp_trip_id r = tid))"
proof -
  let ?cs = "trip_counts stop_times"
  let ?t2r = "trip_to_route trips"
  from rep_fold_invariant [where cs = ?cs and ?t2r = ?t2r and rid = rid] trip_counts_keys_sorted [of stop_times] sel
  have ne: "rid \<noteq> []" and mem: "(tid, cnt) \<in> set ?cs" and rt: "map_of ?t2r tid = Some rid"
    and best: "\<forall>(t, c) \<in> set ?cs. map_of ?t2r t = Some rid \<longrightarrow>
                  c \<le> cnt \<and> (c = cnt \<longrightarrow> tid \<le> t)"
    unfolding route_rep_trips_def by auto
  from mem have tin: "tid \<in> st_trip_id ` set stop_times"
    and cnt: "cnt = visit_count stop_times tid"
    unfolding set_trip_counts by auto
  from tin cnt have pos: "0 < cnt" by (simp add: visit_count_pos)
  from rt obtain t0 where t0: "t0 \<in> set trips" "tr_trip_id t0 = tid" "tr_route_id t0 = rid"
    unfolding map_of_trip_to_route [OF ids] by auto
  have seq: "map_of (route_stops trips stop_times) rid =
           Some (map st_stop_id (trip_st stop_times tid))"
    unfolding map_of_route_stops sel by simp
  have cmp: "visit_count stop_times (tr_trip_id t) \<le> cnt \<and>
            (visit_count stop_times (tr_trip_id t) = cnt \<longrightarrow> tid \<le> tr_trip_id t)"
    if t: "t \<in> set trips" "tr_route_id t = rid" for t
  proof (cases "tr_trip_id t \<in> st_trip_id ` set stop_times")
    case False
    then show ?thesis using pos by (simp add: visit_count_zero)
  next
    case True
    then have "(tr_trip_id t, visit_count stop_times (tr_trip_id t)) \<in> set ?cs"
      unfolding set_trip_counts by blast
    moreover have "map_of ?t2r (tr_trip_id t) = Some rid"
      unfolding map_of_trip_to_route [OF ids] using t by auto
    ultimately show ?thesis using best by blast
  qed
  have uniq: "\<exists>r \<in> set (get_representative_trips trips stop_times).
             rp_route_id r = rid \<and> rp_trip_id r = tid"
    if u: "\<forall>t \<in> set trips. tr_route_id t = rid \<and> tr_trip_id t \<noteq> tid \<longrightarrow>
             visit_count stop_times (tr_trip_id t) < cnt"
  proof -
    from representative_exists [OF t0(1)] tin t0(2)
    obtain r where r: "r \<in> set (get_representative_trips trips stop_times)"
      and k: "rp_route_id r = tr_route_id t0"
        "rp_direction_id r = fill_direction (tr_direction_id t0)"
      by auto
    from representative_longest [OF r t0(1)] k
    have ge: "visit_count stop_times tid \<le> rp_stop_count r"
      using t0(2) by simp
    from r representative_in_enriched [of trips stop_times]
    have "r \<in> set (trips_enriched trips stop_times)" by blast
    then obtain t' where t': "t' \<in> set trips" "rp_trip_id r = tr_trip_id t'"
      "rp_route_id r = tr_route_id t'"
      "rp_stop_count r = visit_count stop_times (tr_trip_id t')"
      unfolding set_trips_enriched by auto
    have "tr_trip_id t' = tid"
    proof (rule ccontr)
      assume "tr_trip_id t' \<noteq> tid"
      with u [rule_format, of t'] t' k(1) t0(3)
      have "visit_count stop_times (tr_trip_id t') < cnt" by simp
      with ge t'(4) cnt show False by simp
    qed
    with r k(1) t0(3) t'(2) show ?thesis by auto
  qed
  from seq cnt pos t0 cmp uniq show ?thesis by blast
qed

theorem planner_representative_trip_witness:
  "distinct (map tr_trip_id ex_trips) \<and>
   map_of (route_rep_trips ex_trips ex_st) ''R'' = Some (''T4'', 2) \<and>
   map_of (route_stops ex_trips ex_st) ''R'' = Some [''B'', ''C''] \<and>
   visit_count ex_st ''T4'' = 2 \<and>
   ''T4'' \<in> rp_trip_id ` set (get_representative_trips ex_trips ex_st)"
proof -
  have d: "distinct (map tr_trip_id ex_trips)" by (simp add: ex_trips_def)
  have s: "map_of (route_rep_trips ex_trips ex_st) ''R'' = Some (''T4'', 2)" by code_simp
  have q: "map st_stop_id (trip_st ex_st ''T4'') = [''B'', ''C'']" by code_simp
  have v: "visit_count ex_st ''T1'' = 1" "visit_count ex_st ''T2'' = 1"
    "visit_count ex_st ''T3'' = 1" "visit_count ex_st ''T5'' = 0"
    by (simp_all add: visit_count_def ex_st_def mk_st_def)
  have u: "\<forall>t \<in> set ex_trips. tr_route_id t = ''R'' \<and> tr_trip_id t \<noteq> ''T4'' \<longrightarrow>
             visit_count ex_st (tr_trip_id t) < 2"
    by (simp add: ex_trips_def v)
  note th = planner_representative_trip [OF d s]
  from th have a: "map_of (route_stops ex_trips ex_st) ''R'' = Some [''B'', ''C'']"
    using q by simp
  from th have b: "visit_count ex_st ''T4'' = 2" by simp
  from th u have "\<exists>r \<in> set (get_representative_trips ex_trips ex_st).
             rp_route_id r = ''R'' \<and> rp_trip_id r = ''T4''" by blast
  then have c: "''T4'' \<in> rp_trip_id ` set (get_representative_trips ex_trips ex_st)"
    by force
  from d s a b c show ?thesis by blast
qed

text \<open>With two trips of equal length in one direction the two selections differ: the
  planner keeps T1, the smaller trip id, and the engine keeps T2, the first in the trips
  table; their stop sequences are not the same.\<close>

theorem planner_tie_differs:
  "route_stops tie_trips tie_stop_times = [(''R'', [''A''])] \<and>
   map rp_trip_id (get_representative_trips tie_trips tie_stop_times) = [''T2''] \<and>
   map rp_route_id (get_representative_trips tie_trips tie_stop_times) = [''R''] \<and>
   map st_stop_id (trip_st tie_stop_times ''T2'') = [''B''] \<and>
   map_of (route_stops tie_trips tie_stop_times) ''R'' \<noteq>
     Some (map st_stop_id (trip_st tie_stop_times ''T2''))"
proof -
  have a: "route_stops tie_trips tie_stop_times = [(''R'', [''A''])]" by code_simp
  have b: "map rp_trip_id (get_representative_trips tie_trips tie_stop_times) = [''T2'']"
    by code_simp
  have c: "map rp_route_id (get_representative_trips tie_trips tie_stop_times) = [''R'']"
    by code_simp
  have d: "map st_stop_id (trip_st tie_stop_times ''T2'') = [''B'']" by code_simp
  from a d have "map_of (route_stops tie_trips tie_stop_times) ''R'' \<noteq>
     Some (map st_stop_id (trip_st tie_stop_times ''T2''))" by simp
  with a b c d show ?thesis by blast
qed

section \<open>Ranking and deduplication of the itineraries\<close>

lemma dedupe_take:
  "length unique < 5 \<Longrightarrow>
   dedupe seen unique xs =
     unique @ take (5 - length unique) (drop_duplicates_from seen route_key xs)"
proof (induction xs arbitrary: seen unique)
  case Nil
  then show ?case by simp
next
  case (Cons r rs)
  show ?case
  proof (cases "route_key r \<in> set seen")
    case True
    with Cons show ?thesis by simp
  next
    case False
    show ?thesis
    proof (cases "length unique = 4")
      case True
      with False show ?thesis by (simp add: Let_def)
    next
      case ne: False
      with Cons.prems have l: "length (unique @ [r]) < 5" by simp
      have "5 - length unique = Suc (5 - length (unique @ [r]))"
        using Cons.prems by simp
      with False ne Cons.prems Cons.IH [OF l, of "route_key r # seen"]
      show ?thesis by (simp add: Let_def)
    qed
  qed
qed

lemma dedupe_eq: "dedupe [] [] xs = take 5 (drop_duplicates route_key xs)"
  using dedupe_take [of "[]" "[]" xs] by (simp add: drop_duplicates_def)

lemma ddf_sorted:
  "sorted (map f xs) \<Longrightarrow> sorted (map f (drop_duplicates_from seen key xs))"
proof (induction xs arbitrary: seen)
  case Nil
  then show ?case by simp
next
  case (Cons x xs)
  have "\<forall>y \<in> set (drop_duplicates_from (key x # seen) key xs). f x \<le> f y"
    using Cons.prems ddf_subset [of "key x # seen" key xs] by auto
  with Cons show ?case by auto
qed

lemma ddf_first_least:
  assumes "sorted (map f xs)"
    and "r \<in> set (drop_duplicates_from seen key xs)"
    and "y \<in> set xs" and "key y = key r"
  shows "f r \<le> f y"
  using assms
proof (induction xs arbitrary: seen)
  case Nil
  then show ?case by simp
next
  case (Cons x xs)
  have tail: "\<forall>z \<in> set xs. f x \<le> f z"
    using Cons.prems(1) by auto
  have srt: "sorted (map f xs)"
    using Cons.prems(1) by simp
  show ?case
  proof (cases "key x \<in> set seen")
    case True
    then have r: "r \<in> set (drop_duplicates_from seen key xs)"
      using Cons.prems(2) by simp
    then have "key r \<notin> set seen" by (rule ddf_keys_fresh)
    with True Cons.prems(4) have "y \<noteq> x" by auto
    with Cons.prems(3) have "y \<in> set xs" by simp
    from Cons.IH [OF srt r this Cons.prems(4)] show ?thesis .
  next
    case False
    then have "r = x \<or> r \<in> set (drop_duplicates_from (key x # seen) key xs)"
      using Cons.prems(2) by simp
    then show ?thesis
    proof
      assume "r = x"
      then show ?thesis using tail Cons.prems(3) by auto
    next
      assume r: "r \<in> set (drop_duplicates_from (key x # seen) key xs)"
      then have "key r \<noteq> key x" using ddf_keys_fresh [OF r] by simp
      with Cons.prems(4) have "y \<noteq> x" by auto
      with Cons.prems(3) have "y \<in> set xs" by simp
      from Cons.IH [OF srt r this Cons.prems(4)] show ?thesis .
    qed
  qed
qed

lemma sorted_map_take: "sorted (map f xs) \<Longrightarrow> sorted (map f (take n xs))"
  by (simp add: sorted_wrt_take flip: take_map)

lemma final_stage:
  fixes results :: "itinerary list"
  defines "out \<equiv> dedupe [] [] (sort_results results)"
  shows "sorted (map rank out)" and "distinct (map route_key out)" and "length out \<le> 5"
    and "out = take 5 (drop_duplicates route_key (sort_results results))"
    and "set out \<subseteq> set results"
    and "\<forall>r \<in> set out. \<forall>x \<in> set results. route_key x = route_key r \<longrightarrow> rank r \<le> rank x"
    and "length out < 5 \<longrightarrow> (\<forall>x \<in> set results. \<exists>r \<in> set out. route_key r = route_key x)"
proof -
  let ?s = "sort_results results"
  let ?d = "drop_duplicates route_key ?s"
  have srt: "sorted (map rank ?s)" by (simp add: sort_results_def)
  have st: "set ?s = set results" by (simp add: sort_results_def)
  show eq: "out = take 5 ?d" by (simp add: out_def dedupe_eq)
  show "sorted (map rank out)"
    unfolding eq drop_duplicates_def by (intro sorted_map_take ddf_sorted srt)
  show "distinct (map route_key out)"
    unfolding eq drop_duplicates_def using ddf_distinct [of route_key "[]" ?s]
    by (simp flip: take_map)
  show "length out \<le> 5" by (simp add: eq)
  have sub: "set out \<subseteq> set ?d" unfolding eq by (rule set_take_subset)
  with ddf_subset [of "[]" route_key ?s] st
  show "set out \<subseteq> set results" by (auto simp: drop_duplicates_def)
  show "\<forall>r \<in> set out. \<forall>x \<in> set results. route_key x = route_key r \<longrightarrow> rank r \<le> rank x"
  proof (intro ballI impI)
    fix r x assume r: "r \<in> set out" and x: "x \<in> set results" and k: "route_key x = route_key r"
    from r sub have "r \<in> set (drop_duplicates_from [] route_key ?s)"
      by (auto simp: drop_duplicates_def)
    from ddf_first_least [OF srt this _ k] x st show "rank r \<le> rank x" by simp
  qed
  show "length out < 5 \<longrightarrow> (\<forall>x \<in> set results. \<exists>r \<in> set out. route_key r = route_key x)"
  proof (intro ballI impI)
    fix x assume l: "length out < 5" and x: "x \<in> set results"
    from l have "out = ?d" unfolding eq by (simp add: min_def split: if_splits)
    moreover from x st have "x \<in> set ?s" by simp
    from ddf_complete [OF this, of route_key "[]"]
    have "\<exists>r \<in> set ?d. route_key r = route_key x" by (simp add: drop_duplicates_def)
    ultimately show "\<exists>r \<in> set out. route_key r = route_key x" by simp
  qed
qed

text \<open>
  Claim C3, as the code has it. The returned list is in ascending order of duration, then
  of transfers; no two itineraries have the same key, the key being the route ids joined
  in order with '-' (so A then B and B then A are two keys); at most five are returned. It
  is the first five of the sorted results with every later itinerary of a repeated key
  removed, so each kept itinerary ranks at least as well as every result with the same
  key, and while fewer than five are returned every key of the results is represented.
\<close>

theorem results_ranked_and_deduplicated:
  assumes "findRoutesRaptor DATA originLoc destLoc = Some out"
  shows "sorted (map rank out) \<and> distinct (map route_key out) \<and> length out \<le> 5 \<and>
         (\<forall>results.
            getStopsAtLocation DATA originLoc \<noteq> [] \<and> getStopsAtLocation DATA destLoc \<noteq> [] \<and>
            collect_results DATA (getStopsAtLocation DATA originLoc)
              (getStopsAtLocation DATA destLoc) originLoc destLoc = Some results \<longrightarrow>
            out = take 5 (drop_duplicates route_key (sort_results results)) \<and>
            set out \<subseteq> set results \<and>
            (\<forall>r \<in> set out. \<forall>x \<in> set results.
                route_key x = route_key r \<longrightarrow> rank r \<le> rank x) \<and>
            (length out < 5 \<longrightarrow>
               (\<forall>x \<in> set results. \<exists>r \<in> set out. route_key r = route_key x)))"
proof (cases "getStopsAtLocation DATA originLoc = [] \<or> getStopsAtLocation DATA destLoc = []")
  case True
  with assms have "out = []" by (auto simp: findRoutesRaptor_def Let_def)
  with True show ?thesis by auto
next
  case False
  with assms obtain results where
    c: "collect_results DATA (getStopsAtLocation DATA originLoc)
          (getStopsAtLocation DATA destLoc) originLoc destLoc = Some results"
    and o: "out = dedupe [] [] (sort_results results)"
    by (auto simp: findRoutesRaptor_def Let_def split: option.splits)
  note f = final_stage [of results, folded o]
  have g: "out = take 5 (drop_duplicates route_key (sort_results rs)) \<and>
            set out \<subseteq> set rs \<and>
            (\<forall>r \<in> set out. \<forall>x \<in> set rs.
                route_key x = route_key r \<longrightarrow> rank r \<le> rank x) \<and>
            (length out < 5 \<longrightarrow>
               (\<forall>x \<in> set rs. \<exists>r \<in> set out. route_key r = route_key x))"
    if "collect_results DATA (getStopsAtLocation DATA originLoc)
              (getStopsAtLocation DATA destLoc) originLoc destLoc = Some rs" for rs
  proof -
    from that c have e: "rs = results" by simp
    show ?thesis unfolding e using f(4-7) by blast
  qed
  from f(1-3) g show ?thesis by blast
qed

theorem results_ranked_and_deduplicated_witness:
  "\<exists>out results.
     findRoutesRaptor dup_data ''X'' ''Y'' = Some out \<and>
     collect_results dup_data [''x''] [''y''] ''X'' ''Y'' = Some results \<and>
     map it_routes results = [[''A'', ''B''], [''A'', ''B'']] \<and>
     map it_duration results = [18, 12] \<and>
     map it_duration out = [12] \<and>
     sorted (map rank out) \<and> distinct (map route_key out) \<and> length out \<le> 5 \<and>
     out = take 5 (drop_duplicates route_key (sort_results results))"
proof -
  have "map_option (map it_duration) (findRoutesRaptor dup_data ''X'' ''Y'') = Some [12]"
    by code_simp
  then obtain out where out: "findRoutesRaptor dup_data ''X'' ''Y'' = Some out"
    and od: "map it_duration out = [12]"
    by auto
  have "map_option (map it_duration) (collect_results dup_data [''x''] [''y''] ''X'' ''Y'')
          = Some [18, 12]"
    by code_simp
  moreover have "map_option (map it_routes) (collect_results dup_data [''x''] [''y''] ''X'' ''Y'')
          = Some [[''A'', ''B''], [''A'', ''B'']]"
    by code_simp
  ultimately obtain results where
    res: "collect_results dup_data [''x''] [''y''] ''X'' ''Y'' = Some results"
    and rd: "map it_duration results = [18, 12]"
    and rr: "map it_routes results = [[''A'', ''B''], [''A'', ''B'']]"
    by auto
  have st: "getStopsAtLocation dup_data ''X'' = [''x'']" "getStopsAtLocation dup_data ''Y'' = [''y'']"
    by (simp_all add: getStopsAtLocation_def dup_data_def or_empty_def)
  note th = results_ranked_and_deduplicated [OF out]
  from th have a: "sorted (map rank out)" "distinct (map route_key out)" "length out \<le> 5"
    by simp_all
  from th [THEN conjunct2, THEN conjunct2, THEN conjunct2, rule_format, of results] res st
  have b: "out = take 5 (drop_duplicates route_key (sort_results results))"
    by simp
  show ?thesis
  proof (rule exI [of _ out], rule exI [of _ results], intro conjI)
    show "findRoutesRaptor dup_data ''X'' ''Y'' = Some out" by (rule out)
    show "collect_results dup_data [''x''] [''y''] ''X'' ''Y'' = Some results" by (rule res)
    show "map it_routes results = [[''A'', ''B''], [''A'', ''B'']]" by (rule rr)
    show "map it_duration results = [18, 12]" by (rule rd)
    show "map it_duration out = [12]" by (rule od)
    show "sorted (map rank out)" "distinct (map route_key out)" "length out \<le> 5" by (rule a)+
    show "out = take 5 (drop_duplicates route_key (sort_results results))" by (rule b)
  qed
qed

text \<open>Two itineraries over the same pair of routes, taken in opposite orders, are both
  kept.\<close>

theorem both_orders_kept:
  "map_option (map it_routes) (findRoutesRaptor swap_data ''X'' ''Y'') =
     Some [[''A''], [''B''], [''A'', ''B''], [''B'', ''A'']] \<and>
   map_option (map it_duration) (findRoutesRaptor swap_data ''X'' ''Y'') = Some [4, 4, 9, 9] \<and>
   set [''A'', ''B''] = set [''B'', ''A'']"
proof -
  have a: "map_option (map it_routes) (findRoutesRaptor swap_data ''X'' ''Y'') =
     Some [[''A''], [''B''], [''A'', ''B''], [''B'', ''A'']]"
    by code_simp
  have b: "map_option (map it_duration) (findRoutesRaptor swap_data ''X'' ''Y'') =
     Some [4, 4, 9, 9]"
    by code_simp
  have "set [''A'', ''B''] = set [''B'', ''A'']" by auto
  with a b show ?thesis by blast
qed

section \<open>The direct-route scan\<close>

lemma enumerate_stops_snoc:
  "enumerate_stops (xs @ [x]) = enumerate_stops xs @ [(int (length xs), x)]"
  by (simp add: enumerate_stops_def)

lemma direct_scan_snoc:
  "direct_scan originStops destStops (xs @ [x]) =
     scan_step originStops destStops (direct_scan originStops destStops xs) (int (length xs), x)"
  by (simp add: direct_scan_def enumerate_stops_snoc)

lemma first_origin_snoc:
  "first_origin originStops xs i \<Longrightarrow> first_origin originStops (xs @ [x]) i"
  by (auto simp: first_origin_def nth_append)

lemma first_origin_new:
  "set xs \<inter> set originStops = {} \<Longrightarrow> x \<in> set originStops \<Longrightarrow>
   first_origin originStops (xs @ [x]) (length xs)"
proof -
  assume d: "set xs \<inter> set originStops = {}" and x: "x \<in> set originStops"
  have "xs ! k \<notin> set originStops" if "k < length xs" for k
    using d nth_mem [OF that] by blast
  with x show ?thesis by (simp add: first_origin_def nth_append)
qed

lemma last_dest_new:
  "i < length xs \<Longrightarrow> x \<in> set destStops \<Longrightarrow> last_dest_after destStops (xs @ [x]) i (length xs)"
  by (auto simp: last_dest_after_def)

lemma last_dest_snoc:
  "last_dest_after destStops xs i j \<Longrightarrow> x \<notin> set destStops \<Longrightarrow>
   last_dest_after destStops (xs @ [x]) i j"
  by (auto simp: last_dest_after_def nth_append)

lemma no_dest_snoc:
  "no_dest_after destStops xs i \<Longrightarrow> i < length xs \<Longrightarrow> x \<notin> set destStops \<Longrightarrow>
   no_dest_after destStops (xs @ [x]) i"
  by (auto simp: no_dest_after_def nth_append)

lemma no_dest_new: "no_dest_after destStops (xs @ [x]) (length xs)"
  by (simp add: no_dest_after_def)

lemma scan_result_direct_scan:
  "scan_result originStops destStops stops (direct_scan originStops destStops stops)"
proof (induction stops rule: rev_induct)
  case Nil
  show ?case by (simp add: scan_result_def direct_scan_def enumerate_stops_def)
next
  case (snoc x xs)
  let ?s = "direct_scan originStops destStops xs"
  let ?n = "length xs"
  from snoc have "(originIdx ?s = - 1 \<and> destIdx ?s = - 1 \<and> set xs \<inter> set originStops = {}) \<or>
     (\<exists>i. originIdx ?s = int i \<and> first_origin originStops xs i \<and>
          originStopId ?s = Some (xs ! i) \<and>
          ((destIdx ?s = - 1 \<and> no_dest_after destStops xs i) \<or>
           (\<exists>j. destIdx ?s = int j \<and> last_dest_after destStops xs i j \<and>
                destStopId ?s = Some (xs ! j))))"
    by (simp add: scan_result_def)
  then show ?case
  proof
    assume a: "originIdx ?s = - 1 \<and> destIdx ?s = - 1 \<and> set xs \<inter> set originStops = {}"
    show ?thesis
    proof (cases "x \<in> set originStops")
      case True
      with a first_origin_new [of xs originStops x] no_dest_new [of destStops xs x]
      show ?thesis
        unfolding direct_scan_snoc scan_result_def
        by (auto simp: scan_step_def Let_def)
    next
      case False
      with a show ?thesis
        unfolding direct_scan_snoc scan_result_def
        by (auto simp: scan_step_def Let_def)
    qed
  next
    assume "\<exists>i. originIdx ?s = int i \<and> first_origin originStops xs i \<and>
          originStopId ?s = Some (xs ! i) \<and>
          ((destIdx ?s = - 1 \<and> no_dest_after destStops xs i) \<or>
           (\<exists>j. destIdx ?s = int j \<and> last_dest_after destStops xs i j \<and>
                destStopId ?s = Some (xs ! j)))"
    then obtain i where i: "originIdx ?s = int i" "first_origin originStops xs i"
      "originStopId ?s = Some (xs ! i)"
      and d: "(destIdx ?s = - 1 \<and> no_dest_after destStops xs i) \<or>
           (\<exists>j. destIdx ?s = int j \<and> last_dest_after destStops xs i j \<and>
                destStopId ?s = Some (xs ! j))"
      by blast
    from i(2) have il: "i < ?n" by (simp add: first_origin_def)
    have fo: "first_origin originStops (xs @ [x]) i" by (rule first_origin_snoc [OF i(2)])
    have oi: "(xs @ [x]) ! i = xs ! i" using il by (simp add: nth_append)
    show ?thesis
    proof (cases "x \<in> set destStops")
      case True
      have "scan_step originStops destStops ?s (int ?n, x) =
            ?s\<lparr>destIdx := int ?n, destStopId := Some x\<rparr>"
        using True i(1) il by (simp add: scan_step_def Let_def)
      with i fo oi last_dest_new [OF il True] show ?thesis
        unfolding direct_scan_snoc scan_result_def by auto
    next
      case False
      have st: "scan_step originStops destStops ?s (int ?n, x) = ?s"
        using False i(1) by (simp add: scan_step_def Let_def)
      from d show ?thesis
      proof
        assume "destIdx ?s = - 1 \<and> no_dest_after destStops xs i"
        with i fo oi no_dest_snoc [OF _ il False] show ?thesis
          unfolding direct_scan_snoc scan_result_def st by auto
      next
        assume "\<exists>j. destIdx ?s = int j \<and> last_dest_after destStops xs i j \<and>
                destStopId ?s = Some (xs ! j)"
        then obtain j where j: "destIdx ?s = int j" "last_dest_after destStops xs i j"
          "destStopId ?s = Some (xs ! j)" by blast
        from j(2) have "j < ?n" by (simp add: last_dest_after_def)
        then have "(xs @ [x]) ! j = xs ! j" by (simp add: nth_append)
        with i fo oi j last_dest_snoc [OF j(2) False] show ?thesis
          unfolding direct_scan_snoc scan_result_def st by auto
      qed
    qed
  qed
qed

lemma first_origin_unique:
  "first_origin originStops stops i \<Longrightarrow> first_origin originStops stops i' \<Longrightarrow> i = i'"
  unfolding first_origin_def by (metis atLeast0LessThan lessThan_iff linorder_neqE_nat set_upt)

lemma last_dest_unique:
  "last_dest_after destStops stops i j \<Longrightarrow> last_dest_after destStops stops i j' \<Longrightarrow> j = j'"
proof (rule ccontr)
  assume a: "last_dest_after destStops stops i j" and b: "last_dest_after destStops stops i j'"
    and n: "j \<noteq> j'"
  then consider "j < j'" | "j' < j" by (meson linorder_neqE_nat)
  then show False
  proof cases
    case 1
    with a b show False by (auto simp: last_dest_after_def)
  next
    case 2
    with a b show False by (auto simp: last_dest_after_def)
  qed
qed

lemma no_dest_excludes:
  "no_dest_after destStops stops i \<Longrightarrow> \<not> last_dest_after destStops stops i j"
  by (auto simp: no_dest_after_def last_dest_after_def)

lemma no_origin_excludes:
  "set stops \<inter> set originStops = {} \<Longrightarrow> \<not> first_origin originStops stops i"
proof
  assume d: "set stops \<inter> set originStops = {}" and f: "first_origin originStops stops i"
  from f have "i < length stops" "stops ! i \<in> set originStops"
    by (simp_all add: first_origin_def)
  with nth_mem [of i stops] d show False by blast
qed

lemma upto_nat: "[int i..int j - 1] = map int [i..<j]"
proof (induction j)
  case 0
  show ?case by simp
next
  case (Suc j)
  show ?case
  proof (cases "i \<le> j")
    case True
    then have "[int i..int (Suc j) - 1] = [int i..int j - 1] @ [int j]"
      using upto_rec2 [of "int i" "int j"] by simp
    with Suc True show ?thesis by simp
  next
    case False
    then show ?thesis by simp
  qed
qed

lemma map_nth_slice: "j \<le> length xs \<Longrightarrow> map ((!) xs) [i..<j] = take (j - i) (drop i xs)"
  by (rule nth_equalityI) auto

lemma leg_duration_slice:
  assumes "j \<le> length tt" and "0 \<notin> set tt"
  shows "leg_duration tt (int i) (int j) = sum_list (take (j - i) (drop i tt))"
proof -
  have "time_at tt (int k) = tt ! k" if "k < j" for k
  proof -
    from that assms(1) have k: "k < length tt" by simp
    with nth_mem [of k tt] assms(2) have "tt ! k \<noteq> 0" by metis
    with k show ?thesis by (simp add: time_at_def)
  qed
  then have "map (time_at tt) (map int [i..<j]) = map ((!) tt) [i..<j]"
    by simp
  then show ?thesis
    unfolding leg_duration_def upto_nat by (simp add: map_nth_slice [OF assms(1)])
qed

text \<open>
  Claim C2, as the code has it. For a route with a stop sequence, the direct scan records at
  most one itinerary, and one exactly when a stop of the destination place comes after the
  first stop of the origin place. Its segment runs from the index of that first origin stop
  to the index of the last destination stop behind it. Its duration is the sum of the
  estimates at the indices from the start up to the one before the end, an absent or zero
  estimate counting as 3; when the route has one nonzero estimate per consecutive stop pair
  this is the sum of the stored estimates between the two indices.
\<close>

theorem direct_itinerary_segment:
  assumes rs: "routeStops DATA routeId = Some stops"
  shows "\<exists>its. direct_itinerary DATA originStops destStops routeId = Some its \<and>
           length its \<le> 1 \<and>
           (its \<noteq> [] \<longleftrightarrow>
              (\<exists>i j. first_origin originStops stops i \<and> last_dest_after destStops stops i j)) \<and>
           (\<forall>it \<in> set its. \<exists>i j.
              first_origin originStops stops i \<and> last_dest_after destStops stops i j \<and>
              it_routes it = [routeId] \<and> it_transfers it = 0 \<and>
              it_segments it =
                [\<lparr>seg_routeId = routeId, seg_startIdx = int i, seg_endIdx = int j\<rparr>] \<and>
              it_originStopId it = Some (stops ! i) \<and> it_destStopId it = Some (stops ! j) \<and>
              it_duration it =
                sum_list (map (time_at (or_empty (routeTravelTimes DATA routeId)))
                            [int i..int j - 1]) \<and>
              (length (or_empty (routeTravelTimes DATA routeId)) = length stops - 1 \<and>
               0 \<notin> set (or_empty (routeTravelTimes DATA routeId)) \<longrightarrow>
               it_duration it =
                 sum_list (take (j - i) (drop i (or_empty (routeTravelTimes DATA routeId))))))"
proof -
  let ?s = "direct_scan originStops destStops stops"
  let ?tt = "or_empty (routeTravelTimes DATA routeId)"
  have inv: "scan_result originStops destStops stops ?s"
    by (rule scan_result_direct_scan)
  show ?thesis
  proof (cases "originIdx ?s \<ge> 0 \<and> destIdx ?s > originIdx ?s")
    case False
    then have none: "direct_itinerary DATA originStops destStops routeId = Some []"
      using rs by (simp add: direct_itinerary_def Let_def)
    have "\<not> (first_origin originStops stops i \<and> last_dest_after destStops stops i j)" for i j
    proof
      assume h: "first_origin originStops stops i \<and> last_dest_after destStops stops i j"
      from inv [unfolded scan_result_def] show False
      proof (elim disjE exE conjE)
        assume "set stops \<inter> set originStops = {}"
        with h no_origin_excludes show False by blast
      next
        fix i' assume i': "first_origin originStops stops i'"
          and n: "no_dest_after destStops stops i'"
        from first_origin_unique [OF i'] h have "i' = i" by blast
        with n h no_dest_excludes show False by blast
      next
        fix i' j' assume o: "originIdx ?s = int i'" and d: "destIdx ?s = int j'"
          and l: "last_dest_after destStops stops i' j'"
        from l have "i' < j'" by (simp add: last_dest_after_def)
        with o d False show False by simp
      qed
    qed
    with none show ?thesis by simp
  next
    case True
    from inv [unfolded scan_result_def] True
    obtain i j where o: "originIdx ?s = int i" and fo: "first_origin originStops stops i"
      and os: "originStopId ?s = Some (stops ! i)"
      and d: "destIdx ?s = int j" and ld: "last_dest_after destStops stops i j"
      and ds: "destStopId ?s = Some (stops ! j)"
      by auto
    define it where "it = \<lparr>it_type = ''direct'', it_routes = [routeId],
                           it_segments = [\<lparr>seg_routeId = routeId, seg_startIdx = int i,
                                           seg_endIdx = int j\<rparr>],
                           it_transfers = 0, it_duration = leg_duration ?tt (int i) (int j),
                           it_stopCount = Some (int j - int i + 1),
                           it_originStopId = Some (stops ! i), it_destStopId = Some (stops ! j),
                           it_transferLoc = None, it_transferStopId = None\<rparr>"
    have one: "direct_itinerary DATA originStops destStops routeId = Some [it]"
      using rs True o d os ds by (simp add: direct_itinerary_def Let_def it_def)
    from ld have jl: "j < length stops" by (simp add: last_dest_after_def)
    have sl: "it_duration it = sum_list (take (j - i) (drop i ?tt))"
      if "length ?tt = length stops - 1 \<and> 0 \<notin> set ?tt"
      using that jl leg_duration_slice [of j ?tt i] by (simp add: it_def)
    have "\<exists>i j. first_origin originStops stops i \<and> last_dest_after destStops stops i j \<and>
              it_routes it = [routeId] \<and> it_transfers it = 0 \<and>
              it_segments it =
                [\<lparr>seg_routeId = routeId, seg_startIdx = int i, seg_endIdx = int j\<rparr>] \<and>
              it_originStopId it = Some (stops ! i) \<and> it_destStopId it = Some (stops ! j) \<and>
              it_duration it = sum_list (map (time_at ?tt) [int i..int j - 1]) \<and>
              (length ?tt = length stops - 1 \<and> 0 \<notin> set ?tt \<longrightarrow>
               it_duration it = sum_list (take (j - i) (drop i ?tt)))"
      using fo ld sl
      by (intro exI [of _ i] exI [of _ j]) (simp add: it_def leg_duration_def)
    with one fo ld show ?thesis by auto
  qed
qed

theorem direct_itinerary_segment_witness:
  "routeStops two_dest_data ''12'' = Some [''O'', ''D1'', ''M'', ''D2''] \<and>
   or_empty (routeTravelTimes two_dest_data ''12'') = [2, 4, 6] \<and>
   (\<exists>it. direct_itinerary two_dest_data [''O''] [''D1'', ''D2''] ''12'' = Some [it] \<and>
         it_segments it = [\<lparr>seg_routeId = ''12'', seg_startIdx = 0, seg_endIdx = 3\<rparr>] \<and>
         it_destStopId it = Some ''D2'' \<and>
         it_duration it = 12)"
proof -
  let ?stops = "[''O'', ''D1'', ''M'', ''D2'']"
  let ?O = "[''O'']"
  let ?D = "[''D1'', ''D2'']"
  have rs: "routeStops two_dest_data ''12'' = Some ?stops"
    by (simp add: two_dest_data_def)
  have tt: "or_empty (routeTravelTimes two_dest_data ''12'') = [2, 4, 6]"
    by (simp add: two_dest_data_def or_empty_def)
  have fo: "first_origin ?O ?stops 0" by code_simp
  have ld: "last_dest_after ?D ?stops 0 3" by code_simp
  from direct_itinerary_segment [OF rs, of ?O ?D]
  obtain its where its: "direct_itinerary two_dest_data ?O ?D ''12'' = Some its"
    and len: "length its \<le> 1"
    and ne: "its \<noteq> [] \<longleftrightarrow> (\<exists>i j. first_origin ?O ?stops i \<and> last_dest_after ?D ?stops i j)"
    and all: "\<forall>it \<in> set its. \<exists>i j.
              first_origin ?O ?stops i \<and> last_dest_after ?D ?stops i j \<and>
              it_routes it = [''12''] \<and> it_transfers it = 0 \<and>
              it_segments it =
                [\<lparr>seg_routeId = ''12'', seg_startIdx = int i, seg_endIdx = int j\<rparr>] \<and>
              it_originStopId it = Some (?stops ! i) \<and> it_destStopId it = Some (?stops ! j) \<and>
              it_duration it =
                sum_list (map (time_at (or_empty (routeTravelTimes two_dest_data ''12'')))
                            [int i..int j - 1]) \<and>
              (length (or_empty (routeTravelTimes two_dest_data ''12'')) = length ?stops - 1 \<and>
               0 \<notin> set (or_empty (routeTravelTimes two_dest_data ''12'')) \<longrightarrow>
               it_duration it =
                 sum_list (take (j - i) (drop i (or_empty (routeTravelTimes two_dest_data ''12'')))))"
    by blast
  from ne fo ld have "its \<noteq> []" by blast
  with len obtain it where one: "its = [it]"
    by (cases its) auto
  with all obtain i j where i: "first_origin ?O ?stops i" and j: "last_dest_after ?D ?stops i j"
    and seg: "it_segments it =
                [\<lparr>seg_routeId = ''12'', seg_startIdx = int i, seg_endIdx = int j\<rparr>]"
    and dst: "it_destStopId it = Some (?stops ! j)"
    and dur: "length (or_empty (routeTravelTimes two_dest_data ''12'')) = length ?stops - 1 \<and>
               0 \<notin> set (or_empty (routeTravelTimes two_dest_data ''12'')) \<longrightarrow>
               it_duration it =
                 sum_list (take (j - i) (drop i (or_empty (routeTravelTimes two_dest_data ''12''))))"
    by auto
  from first_origin_unique [OF i fo] have i0: "i = 0" .
  from last_dest_unique [OF j [unfolded i0] ld] have j3: "j = 3" .
  from dur have "it_duration it = 12" unfolding tt i0 j3 by simp
  moreover from seg have "it_segments it =
      [\<lparr>seg_routeId = ''12'', seg_startIdx = 0, seg_endIdx = 3\<rparr>]"
    unfolding i0 j3 by simp
  moreover from dst have "it_destStopId it = Some ''D2''" unfolding j3 by simp
  ultimately have "direct_itinerary two_dest_data ?O ?D ''12'' = Some [it] \<and>
         it_segments it = [\<lparr>seg_routeId = ''12'', seg_startIdx = 0, seg_endIdx = 3\<rparr>] \<and>
         it_destStopId it = Some ''D2'' \<and> it_duration it = 12"
    using its one by simp
  then have "\<exists>it. direct_itinerary two_dest_data ?O ?D ''12'' = Some [it] \<and>
         it_segments it = [\<lparr>seg_routeId = ''12'', seg_startIdx = 0, seg_endIdx = 3\<rparr>] \<and>
         it_destStopId it = Some ''D2'' \<and> it_duration it = 12"
    by (rule exI)
  with rs tt show ?thesis by simp
qed


text \<open>Route 12 passes the destination stops D1 and D2 after the origin stop O: the recorded
  segment ends at D2, index 3, with the three estimates summed, not at D1, index 1, the
  first destination stop after the origin.\<close>

theorem direct_scan_takes_last:
  "getStopsAtLocation two_dest_data ''X'' = [''O''] \<and>
   getStopsAtLocation two_dest_data ''Y'' = [''D1'', ''D2''] \<and>
   routeStops two_dest_data ''12'' = Some [''O'', ''D1'', ''M'', ''D2''] \<and>
   map_option (map it_segments) (findRoutesRaptor two_dest_data ''X'' ''Y'') =
     Some [[\<lparr>seg_routeId = ''12'', seg_startIdx = 0, seg_endIdx = 3\<rparr>]] \<and>
   map_option (map it_duration) (findRoutesRaptor two_dest_data ''X'' ''Y'') = Some [12] \<and>
   map_option (map it_destStopId) (findRoutesRaptor two_dest_data ''X'' ''Y'') =
     Some [Some ''D2'']"
proof -
  have a: "getStopsAtLocation two_dest_data ''X'' = [''O'']"
    "getStopsAtLocation two_dest_data ''Y'' = [''D1'', ''D2'']"
    "routeStops two_dest_data ''12'' = Some [''O'', ''D1'', ''M'', ''D2'']"
    by (simp_all add: getStopsAtLocation_def two_dest_data_def or_empty_def)
  have b: "map_option (map it_segments) (findRoutesRaptor two_dest_data ''X'' ''Y'') =
     Some [[\<lparr>seg_routeId = ''12'', seg_startIdx = 0, seg_endIdx = 3\<rparr>]]"
    by code_simp
  have c: "map_option (map it_duration) (findRoutesRaptor two_dest_data ''X'' ''Y'') = Some [12]"
    by code_simp
  have d: "map_option (map it_destStopId) (findRoutesRaptor two_dest_data ''X'' ''Y'') =
     Some [Some ''D2'']"
    by code_simp
  from a b c d show ?thesis by simp
qed


text \<open>The indices that \<open>build_indices\<close> hands to the page have, for every route, one
  estimate per consecutive stop pair, each between 1 and 30.\<close>

lemma map_of_map_triple:
  "map_of (map (\<lambda>(k, a, b). (k, f a)) xs) x = map_option (\<lambda>(a, b). f a) (map_of xs x)"
  by (induction xs) auto

lemma map_of_route_stop_times:
  "map_of (route_stop_times trips stop_times) rid =
     map_option (\<lambda>(tid, cnt).
                   map (\<lambda>row. \<lparr>e_stop = st_stop_id row, e_arr = st_arrival_time row,
                               e_dep = st_departure_time row, e_seq = st_stop_sequence row\<rparr>)
                     (trip_st stop_times tid))
       (map_of (route_rep_trips trips stop_times) rid)"
  unfolding route_stop_times_def by (rule map_of_map_triple)

lemma map_of_route_travel_times:
  "map_of (route_travel_times trips stop_times) rid =
     map_option travel_times (map_of (route_stop_times trips stop_times) rid)"
  unfolding route_travel_times_def by (rule map_of_map_values)

lemma travel_times_in_range: "t \<in> set (travel_times ts) \<Longrightarrow> 1 \<le> t \<and> t \<le> 30"
  using segment_duration_range
  by (induction ts rule: travel_times.induct) auto

lemma planner_times_shape:
  assumes "map_of (route_stops trips stop_times) rid = Some stops"
    and "map_of (route_travel_times trips stop_times) rid = Some tt"
  shows "length tt = length stops - 1 \<and> (\<forall>t \<in> set tt. 1 \<le> t \<and> t \<le> 30) \<and> 0 \<notin> set tt"
proof -
  from assms(1) obtain tid cnt where
    sel: "map_of (route_rep_trips trips stop_times) rid = Some (tid, cnt)"
    and st: "stops = map st_stop_id (trip_st stop_times tid)"
    by (auto simp: map_of_route_stops)
  from assms(2) sel obtain ts where tt: "tt = travel_times ts"
    and ts: "length ts = length (trip_st stop_times tid)"
    by (auto simp: map_of_route_travel_times map_of_route_stop_times)
  have len: "length tt = length stops - 1"
    by (simp add: tt st ts length_travel_times)
  have rng: "\<forall>t \<in> set tt. 1 \<le> t \<and> t \<le> 30"
    unfolding tt using travel_times_in_range by blast
  then have "0 \<notin> set tt" by force
  with len rng show ?thesis by blast
qed

end
